theory Spec2Isabelle
  imports Complex_Main "HOL-Library.Word" "HOL-Library.Log_Nat" "HOL-Library.Monad_Syntax"
begin

section \<open>Tile arithmetic of \<^verbatim>\<open>include/osmium/geom/tile.hpp\<close>\<close>

text \<open>
  The header computes slippy-map tile numbers from Web-Mercator coordinates and defines
  the value type \<^verbatim>\<open>Tile\<close> with its validity check, equality and ordering.

  \<^item> \<^verbatim>\<open>uint32_t\<close> is \<open>32 word\<close>: \<open>+\<close> and \<open>-\<close> wrap, \<open><\<close> compares unsigned.
  \<^item> \<^verbatim>\<open>int32_t\<close> values are integers between \<open>- 2 ^ 31\<close> and \<open>2 ^ 31 - 1\<close>; a
    \<^verbatim>\<open>uint32_t\<close> converted to \<^verbatim>\<open>int32_t\<close> is \<open>sint\<close> of the word, and an
    \<^verbatim>\<open>int32_t\<close> converted to \<^verbatim>\<open>uint32_t\<close> is \<open>word_of_int\<close>.
  \<^item> \<^verbatim>\<open>double\<close> is IEEE 754 binary64 with round-to-nearest, ties-to-even: a finite
    value is a real number, and every operation rounds its exact result to binary64
    (no wider intermediate precision, as on x86-64 with SSE2 and on AArch64).
  \<^item> Undefined behaviour of C++ (a shift by 32 or more, a floating-point value converted
    to an integer type that cannot hold it) is the result \<open>None\<close>.
  \<^item> A failed \<^verbatim>\<open>assert\<close> is the result \<open>Inl Assertion_failed\<close>; the flag \<open>ndebug\<close>
    says that the header was compiled with \<^verbatim>\<open>NDEBUG\<close>, where \<^verbatim>\<open>assert\<close> expands to
    nothing.
\<close>

type_synonym u32 = "32 word"

subsection \<open>The type \<^verbatim>\<open>double\<close>\<close>

text \<open>\<open>pow2 e\<close> is \<open>2\<close> to the power \<open>e\<close>, for an integer \<open>e\<close> of either sign.\<close>

definition pow2 :: "int \<Rightarrow> real" where
  "pow2 e = (if 0 \<le> e then 2 ^ nat e else 1 / 2 ^ nat (- e))"

text \<open>
  For \<open>a > 0\<close>, \<open>ilog2 a\<close> is the binary exponent of \<open>a\<close>: the integer \<open>e\<close> with
  \<open>2 ^ e \<le> a < 2 ^ (e + 1)\<close>. It is computed from the number of binary digits of
  \<open>\<lfloor>a\<rfloor>\<close>, or of \<open>\<lceil>1 / a\<rceil> - 1\<close> when \<open>a < 1\<close>.
\<close>

definition ilog2 :: "real \<Rightarrow> int" where
  "ilog2 a = (if 1 \<le> a then int (floorlog 2 (nat \<lfloor>a\<rfloor>)) - 1
              else - int (floorlog 2 (nat (\<lceil>1 / a\<rceil> - 1))))"

text \<open>Rounding to the nearest integer, a tie to the even one.\<close>

definition rne :: "real \<Rightarrow> int" where
  "rne s = (let f = \<lfloor>s\<rfloor>; d = s - of_int f in
            if d < 1 / 2 then f else if 1 / 2 < d then f + 1 else if even f then f else f + 1)"

text \<open>
  A binary64 value near \<open>r\<close> is a multiple of \<open>2 ^ fexp r\<close>: the significand has 53
  bits, and the exponent of the last bit is never below \<open>- 1074\<close> (subnormal numbers).
\<close>

definition fexp :: "real \<Rightarrow> int" where
  "fexp r = max (ilog2 \<bar>r\<bar> - 52) (- 1074)"

text \<open>\<open>rnd r\<close> is \<open>r\<close> rounded to binary64 precision, before the check for overflow.\<close>

definition rnd :: "real \<Rightarrow> real" where
  "rnd r = (if r = 0 then 0 else of_int (rne (r / pow2 (fexp r))) * pow2 (fexp r))"

text \<open>The finite binary64 numbers, as reals.\<close>

definition is_double :: "real \<Rightarrow> bool" where
  "is_double r \<longleftrightarrow> rnd r = r \<and> \<bar>r\<bar> < 2 ^ 1024"

text \<open>
  The values of a \<^verbatim>\<open>double\<close>. The two zeros are one value \<open>Finite 0\<close>, taken as the
  positive zero where a value is divided by it: the sign of a zero shows only in the
  sign of such an infinity, and every infinity is outside the range of the integer
  conversion below.
\<close>

datatype double = Finite real | PlusInf | MinusInf | NaN

text \<open>The result of an operation whose exact value is \<open>r\<close>: rounded, infinite on overflow.\<close>

definition to_double :: "real \<Rightarrow> double" where
  "to_double r =
     (let v = rnd r in
      if 2 ^ 1024 \<le> v then PlusInf else if v \<le> - (2 ^ 1024) then MinusInf else Finite v)"

fun dneg :: "double \<Rightarrow> double" where
  "dneg (Finite a) = Finite (- a)"
| "dneg PlusInf = MinusInf"
| "dneg MinusInf = PlusInf"
| "dneg NaN = NaN"

fun dadd :: "double \<Rightarrow> double \<Rightarrow> double" where
  "dadd (Finite a) (Finite b) = to_double (a + b)"
| "dadd NaN _ = NaN"
| "dadd _ NaN = NaN"
| "dadd PlusInf MinusInf = NaN"
| "dadd MinusInf PlusInf = NaN"
| "dadd PlusInf _ = PlusInf"
| "dadd _ PlusInf = PlusInf"
| "dadd MinusInf _ = MinusInf"
| "dadd _ MinusInf = MinusInf"

definition dsub :: "double \<Rightarrow> double \<Rightarrow> double" where
  "dsub a b = dadd a (dneg b)"

fun dmul :: "double \<Rightarrow> double \<Rightarrow> double" where
  "dmul (Finite a) (Finite b) = to_double (a * b)"
| "dmul NaN _ = NaN"
| "dmul _ NaN = NaN"
| "dmul (Finite a) PlusInf = (if a = 0 then NaN else if 0 < a then PlusInf else MinusInf)"
| "dmul (Finite a) MinusInf = (if a = 0 then NaN else if 0 < a then MinusInf else PlusInf)"
| "dmul PlusInf (Finite b) = (if b = 0 then NaN else if 0 < b then PlusInf else MinusInf)"
| "dmul MinusInf (Finite b) = (if b = 0 then NaN else if 0 < b then MinusInf else PlusInf)"
| "dmul PlusInf PlusInf = PlusInf"
| "dmul PlusInf MinusInf = MinusInf"
| "dmul MinusInf PlusInf = MinusInf"
| "dmul MinusInf MinusInf = PlusInf"

fun ddiv :: "double \<Rightarrow> double \<Rightarrow> double" where
  "ddiv (Finite a) (Finite b) =
     (if b = 0 then (if a = 0 then NaN else if 0 < a then PlusInf else MinusInf)
      else to_double (a / b))"
| "ddiv NaN _ = NaN"
| "ddiv _ NaN = NaN"
| "ddiv (Finite a) PlusInf = Finite 0"
| "ddiv (Finite a) MinusInf = Finite 0"
| "ddiv PlusInf (Finite b) = (if 0 \<le> b then PlusInf else MinusInf)"
| "ddiv MinusInf (Finite b) = (if 0 \<le> b then MinusInf else PlusInf)"
| "ddiv PlusInf PlusInf = NaN"
| "ddiv PlusInf MinusInf = NaN"
| "ddiv MinusInf PlusInf = NaN"
| "ddiv MinusInf MinusInf = NaN"

text \<open>A \<^verbatim>\<open>uint32_t\<close> converted to \<^verbatim>\<open>double\<close>: exact, the value is below \<open>2 ^ 53\<close>.\<close>

definition double_of_u32 :: "u32 \<Rightarrow> double" where
  "double_of_u32 n = Finite (real (unat n))"

text \<open>
  \<^verbatim>\<open>static_cast<int32_t>\<close> of a \<^verbatim>\<open>double\<close>: the fractional part is discarded, and the
  behaviour is undefined if the truncated value is not a value of \<^verbatim>\<open>int32_t\<close>.
\<close>

definition trunc :: "real \<Rightarrow> int" where
  "trunc r = (if 0 \<le> r then \<lfloor>r\<rfloor> else \<lceil>r\<rceil>)"

definition double_to_int32 :: "double \<Rightarrow> int option" where
  "double_to_int32 d =
     (case d of
        Finite r \<Rightarrow> if - (2 ^ 31) \<le> trunc r \<and> trunc r < 2 ^ 31 then Some (trunc r) else None
      | _ \<Rightarrow> None)"

subsection \<open>\<^verbatim>\<open>detail::clamp\<close>\<close>

text \<open>\<^verbatim>\<open>return value < min ? min : (max < value ? max : value);\<close>\<close>

definition clamp :: "'a::ord \<Rightarrow> 'a \<Rightarrow> 'a \<Rightarrow> 'a" where
  "clamp v lo hi = (if v < lo then lo else (if hi < v then hi else v))"

subsection \<open>\<^verbatim>\<open>num_tiles_in_zoom\<close> and \<^verbatim>\<open>tile_extent_in_zoom\<close>\<close>

text \<open>
  \<^verbatim>\<open>return 1U << zoom;\<close> on a 32-bit \<^verbatim>\<open>unsigned\<close>. The shift is undefined when the
  shift count is not smaller than the width of the left operand.
\<close>

definition num_tiles_in_zoom :: "u32 \<Rightarrow> u32 option" where
  "num_tiles_in_zoom zoom = (if zoom < 32 then Some (push_bit (unat zoom) 1) else None)"

text \<open>
  \<^verbatim>\<open>return detail::max_coordinate_epsg3857 * 2 / num_tiles_in_zoom(zoom);\<close>

  The constant \<^verbatim>\<open>detail::max_coordinate_epsg3857\<close> is declared in
  \<^verbatim>\<open>mercator_projection.hpp\<close>; it is the parameter \<open>mc\<close> of every function that uses it.
\<close>

definition tile_extent_in_zoom :: "double \<Rightarrow> u32 \<Rightarrow> double option" where
  "tile_extent_in_zoom mc zoom = do {
     n \<leftarrow> num_tiles_in_zoom zoom;
     Some (ddiv (dmul mc (Finite 2)) (double_of_u32 n))
   }"

subsection \<open>\<^verbatim>\<open>mercx_to_tilex\<close> and \<^verbatim>\<open>mercy_to_tiley\<close>\<close>

text \<open>
  \<^verbatim>\<open>return static_cast<uint32_t>(detail::clamp<int32_t>(
      static_cast<int32_t>((x + detail::max_coordinate_epsg3857) / tile_extent_in_zoom(zoom)),
      0, num_tiles_in_zoom(zoom) - 1));\<close>
\<close>

definition mercx_to_tilex :: "double \<Rightarrow> u32 \<Rightarrow> double \<Rightarrow> u32 option" where
  "mercx_to_tilex mc zoom cx = do {
     n \<leftarrow> num_tiles_in_zoom zoom;
     extent \<leftarrow> tile_extent_in_zoom mc zoom;
     v \<leftarrow> double_to_int32 (ddiv (dadd cx mc) extent);
     Some (word_of_int (clamp v 0 (sint (n - 1))))
   }"

text \<open>The same with \<^verbatim>\<open>(detail::max_coordinate_epsg3857 - y) / tile_extent_in_zoom(zoom)\<close>.\<close>

definition mercy_to_tiley :: "double \<Rightarrow> u32 \<Rightarrow> double \<Rightarrow> u32 option" where
  "mercy_to_tiley mc zoom cy = do {
     n \<leftarrow> num_tiles_in_zoom zoom;
     extent \<leftarrow> tile_extent_in_zoom mc zoom;
     v \<leftarrow> double_to_int32 (ddiv (dsub mc cy) extent);
     Some (word_of_int (clamp v 0 (sint (n - 1))))
   }"

subsection \<open>The struct \<^verbatim>\<open>Tile\<close>\<close>

record Tile =
  x :: u32
  y :: u32
  z :: u32

definition max_zoom :: u32 where
  "max_zoom = 30"

datatype failure = Assertion_failed | Undefined_behaviour | Exception_thrown

text \<open>\<^verbatim>\<open>Tile(uint32_t zoom, uint32_t tx, uint32_t ty)\<close> with its three assertions.\<close>

definition Tile_from_indexes :: "bool \<Rightarrow> u32 \<Rightarrow> u32 \<Rightarrow> u32 \<Rightarrow> failure + Tile" where
  "Tile_from_indexes ndebug zoom tx ty =
     (if ndebug then Inr \<lparr>x = tx, y = ty, z = zoom\<rparr>
      else if \<not> zoom \<le> max_zoom then Inl Assertion_failed
      else case num_tiles_in_zoom zoom of
             None \<Rightarrow> Inl Undefined_behaviour
           | Some n \<Rightarrow>
               if \<not> tx < n then Inl Assertion_failed
               else if \<not> ty < n then Inl Assertion_failed
               else Inr \<lparr>x = tx, y = ty, z = zoom\<rparr>)"

text \<open>
  Modelled from the spec: \<^verbatim>\<open>osmium::geom::Coordinates\<close>, declared in
  \<^verbatim>\<open>coordinates.hpp\<close>, is the coordinate-pair type with the fields \<^verbatim>\<open>x\<close> and \<^verbatim>\<open>y\<close>,
  two \<^verbatim>\<open>double\<close>s: here the pair \<open>(x, y)\<close>.
\<close>

type_synonym Coordinates = "double \<times> double"

text \<open>\<^verbatim>\<open>Tile(uint32_t zoom, const osmium::geom::Coordinates& coordinates)\<close>\<close>

definition Tile_from_coordinates ::
    "bool \<Rightarrow> double \<Rightarrow> u32 \<Rightarrow> Coordinates \<Rightarrow> failure + Tile" where
  "Tile_from_coordinates ndebug mc zoom coordinates =
     (if \<not> ndebug \<and> \<not> zoom \<le> max_zoom then Inl Assertion_failed
      else case mercx_to_tilex mc zoom (fst coordinates) of
             None \<Rightarrow> Inl Undefined_behaviour
           | Some tx \<Rightarrow>
               (case mercy_to_tiley mc zoom (snd coordinates) of
                  None \<Rightarrow> Inl Undefined_behaviour
                | Some ty \<Rightarrow> Inr \<lparr>x = tx, y = ty, z = zoom\<rparr>))"

text \<open>
  \<^verbatim>\<open>Tile(uint32_t zoom, const osmium::Location& location)\<close>

  \<^verbatim>\<open>osmium::Location\<close>, its member \<^verbatim>\<open>valid()\<close> and the function
  \<^verbatim>\<open>lonlat_to_mercator\<close> are declared in \<^verbatim>\<open>location.hpp\<close> and
  \<^verbatim>\<open>mercator_projection.hpp\<close>: the type is the type variable \<open>'loc\<close>, the two functions
  are parameters, and \<^verbatim>\<open>lonlat_to_mercator\<close> may fail instead of returning coordinates.
\<close>

definition Tile_from_location ::
    "bool \<Rightarrow> double \<Rightarrow> ('loc \<Rightarrow> bool) \<Rightarrow> ('loc \<Rightarrow> failure + Coordinates) \<Rightarrow>
     u32 \<Rightarrow> 'loc \<Rightarrow> failure + Tile" where
  "Tile_from_location ndebug mc location_valid lonlat_to_mercator zoom location =
     (if \<not> ndebug \<and> \<not> zoom \<le> max_zoom then Inl Assertion_failed
      else if \<not> ndebug \<and> \<not> location_valid location then Inl Assertion_failed
      else case lonlat_to_mercator location of
             Inl e \<Rightarrow> Inl e
           | Inr coordinates \<Rightarrow>
               (case mercx_to_tilex mc zoom (fst coordinates) of
                  None \<Rightarrow> Inl Undefined_behaviour
                | Some tx \<Rightarrow>
                    (case mercy_to_tiley mc zoom (snd coordinates) of
                       None \<Rightarrow> Inl Undefined_behaviour
                     | Some ty \<Rightarrow> Inr \<lparr>x = tx, y = ty, z = zoom\<rparr>)))"

text \<open>
  \<^verbatim>\<open>Tile::valid()\<close> is a \<^verbatim>\<open>const noexcept\<close> member that only reads the three fields:
  the model is a function of the tile that returns the answer and nothing else.
\<close>

definition valid :: "Tile \<Rightarrow> bool option" where
  "valid t =
     (if max_zoom < z t then Some False
      else do {
        mx \<leftarrow> num_tiles_in_zoom (z t);
        Some (x t < mx \<and> y t < mx)
      })"

text \<open>\<^verbatim>\<open>operator==\<close>, \<^verbatim>\<open>operator!=\<close> and \<^verbatim>\<open>operator<\<close> on tiles.\<close>

definition tile_eq :: "Tile \<Rightarrow> Tile \<Rightarrow> bool" where
  "tile_eq lhs rhs = (z lhs = z rhs \<and> x lhs = x rhs \<and> y lhs = y rhs)"

definition tile_neq :: "Tile \<Rightarrow> Tile \<Rightarrow> bool" where
  "tile_neq lhs rhs = (\<not> tile_eq lhs rhs)"

definition tile_less :: "Tile \<Rightarrow> Tile \<Rightarrow> bool" where
  "tile_less lhs rhs =
     (if z lhs < z rhs then True
      else if z rhs < z lhs then False
      else if x lhs < x rhs then True
      else if x rhs < x lhs then False
      else y lhs < y rhs)"

subsection \<open>Notions used to state the properties\<close>

text \<open>
  Ordering three components lexicographically, as the specification words it: first
  by \<open>z\<close>, then by \<open>x\<close>, then by \<open>y\<close>.
\<close>

definition lex3 :: "'a::linorder \<Rightarrow> 'a \<Rightarrow> 'a \<Rightarrow> 'a \<Rightarrow> 'a \<Rightarrow> 'a \<Rightarrow> bool" where
  "lex3 za xa ya zb xb yb \<longleftrightarrow> za < zb \<or> (za = zb \<and> (xa < xb \<or> (xa = xb \<and> ya < yb)))"

text \<open>
  What is assumed of the constant \<^verbatim>\<open>detail::max_coordinate_epsg3857\<close>, the half-width
  of the projection's square extent: it is a finite \<^verbatim>\<open>double\<close> between \<open>1\<close> and
  \<open>2 ^ 1000\<close>.
\<close>

definition max_coordinate_ok :: "double \<Rightarrow> bool" where
  "max_coordinate_ok mc =
     (case mc of Finite m \<Rightarrow> is_double m \<and> 1 \<le> m \<and> m \<le> 2 ^ 1000 | _ \<Rightarrow> False)"

text \<open>
  The value used in the worked examples is the \<^verbatim>\<open>double\<close> nearest to \<open>20037508.34\<close>,
  the half-width in metres of the EPSG:3857 square.
\<close>

definition epsg3857_max :: double where
  "epsg3857_max = Finite (5378777688351703 / 2 ^ 28)"

section \<open>Properties of the model\<close>

subsection \<open>Facts about 32-bit words\<close>

lemma unat_push_bit_one:
  assumes "n < 32"
  shows "unat (push_bit n (1::u32)) = 2 ^ n"
proof -
  have "(2::nat) ^ n < 2 ^ 32"
    using assms by (intro power_strict_increasing) auto
  moreover have "push_bit n (1::u32) = of_nat (2 ^ n)"
    by (simp add: push_bit_eq_mult)
  then have "unat (push_bit n (1::u32)) = 2 ^ n mod 2 ^ 32"
    by (simp only: unat_of_nat) simp
  ultimately show ?thesis by simp
qed

lemma sint_eq_unat:
  assumes "unat (w::u32) < 2 ^ 31"
  shows "sint w = int (unat w)"
proof -
  have "int (unat w) < int (2 ^ 31)"
    using assms by (simp only: of_nat_less_iff)
  then have "uint w < 2 ^ 31" by simp
  moreover have "- (2 ^ 31) \<le> uint w"
    by (rule order_trans[of _ 0]) simp_all
  ultimately have "signed_take_bit 31 (uint w) = uint w"
    by (simp only: signed_take_bit_int_eq_self)
  then show ?thesis by (simp add: sint_uint)
qed

lemma unat_word_of_int:
  assumes "0 \<le> i" and "i < 2 ^ 32"
  shows "unat (word_of_int i :: u32) = nat i"
proof -
  have "uint (word_of_int i :: u32) = i mod 2 ^ 32"
    by (simp add: uint_word_of_int)
  then have "uint (word_of_int i :: u32) = i"
    using assms by simp
  then show ?thesis by (simp only: unat_eq_nat_uint)
qed

lemma zoom_less_32_unat: "(zoom::u32) < 32 \<longleftrightarrow> unat zoom < 32"
  by (simp add: word_less_nat_alt)

lemma zoom_le_30_unat: "(zoom::u32) \<le> 30 \<longleftrightarrow> unat zoom \<le> 30"
  by (simp add: word_le_nat_alt)

lemma num_tiles_in_zoom_unat:
  assumes "zoom < 32"
  shows "map_option unat (num_tiles_in_zoom zoom) = Some (2 ^ unat zoom)"
  using assms unat_push_bit_one[of "unat zoom"]
  by (simp add: num_tiles_in_zoom_def zoom_less_32_unat)

lemma num_tiles_in_zoom_SomeD:
  assumes "num_tiles_in_zoom zoom = Some n"
  shows "zoom < 32 \<and> unat n = 2 ^ unat zoom"
  using assms unat_push_bit_one[of "unat zoom"]
  by (auto simp: num_tiles_in_zoom_def zoom_less_32_unat split: if_splits)

lemma unat_num_tiles_minus_one:
  assumes "num_tiles_in_zoom zoom = Some n"
  shows "unat (n - 1) = 2 ^ unat zoom - 1"
proof -
  have n: "unat n = 2 ^ unat zoom"
    using num_tiles_in_zoom_SomeD[OF assms] by simp
  have "unat (1::u32) \<le> unat n"
    by (simp only: n unat_1) simp
  then have "(1::u32) \<le> n"
    by (simp only: word_le_nat_alt)
  then show ?thesis
    by (simp only: unat_sub n unat_1)
qed

subsection \<open>Validity and ordering\<close>

lemma zoom_small: "w < 32" if "\<not> 30 < w" for w :: u32
proof -
  have "unat w \<le> 30" using that by (simp add: word_less_nat_alt)
  then show ?thesis by (simp add: word_less_nat_alt)
qed

lemma valid_small:
  assumes "\<not> 30 < z t"
  shows "valid t = Some (x t < push_bit (unat (z t)) 1 \<and> y t < push_bit (unat (z t)) 1)"
    and "num_tiles_in_zoom (z t) = Some (push_bit (unat (z t)) 1)"
    and "unat (push_bit (unat (z t)) (1::u32)) = 2 ^ unat (z t)"
proof -
  have lt: "z t < 32" using assms by (rule zoom_small)
  then show nt: "num_tiles_in_zoom (z t) = Some (push_bit (unat (z t)) 1)"
    by (simp only: num_tiles_in_zoom_def if_True)
  show "valid t = Some (x t < push_bit (unat (z t)) 1 \<and> y t < push_bit (unat (z t)) 1)"
    using assms by (simp only: valid_def max_zoom_def nt if_False bind.bind_lunit)
  have "unat (z t) < 32" using lt by (simp only: zoom_less_32_unat)
  then show "unat (push_bit (unat (z t)) (1::u32)) = 2 ^ unat (z t)"
    by (rule unat_push_bit_one)
qed

lemma valid_large:
  assumes "30 < z t"
  shows "valid t = Some False"
  using assms by (simp add: valid_def max_zoom_def)

lemma lex3_irrefl: "\<not> lex3 za xa ya za xa ya"
  by (simp add: lex3_def)

lemma lex3_trans:
  "lex3 za xa ya zb xb yb \<Longrightarrow> lex3 zb xb yb zc xc yc \<Longrightarrow> lex3 za xa ya zc xc yc"
  unfolding lex3_def by auto

lemma lex3_trichotomy:
  "(lex3 za xa ya zb xb yb \<and> \<not> lex3 zb xb yb za xa ya \<and> \<not> (za = zb \<and> xa = xb \<and> ya = yb)) \<or>
   (\<not> lex3 za xa ya zb xb yb \<and> lex3 zb xb yb za xa ya \<and> \<not> (za = zb \<and> xa = xb \<and> ya = yb)) \<or>
   (\<not> lex3 za xa ya zb xb yb \<and> \<not> lex3 zb xb yb za xa ya \<and> (za = zb \<and> xa = xb \<and> ya = yb))"
  unfolding lex3_def by auto

lemma if_chain_lex3:
  "(if za < zb then True else if zb < za then False
    else if xa < xb then True else if xb < xa then False else ya < yb)
   = lex3 za xa ya zb xb yb"
  unfolding lex3_def by auto

lemma tile_less_lex: "tile_less a b \<longleftrightarrow> lex3 (z a) (x a) (y a) (z b) (x b) (y b)"
  by (simp only: tile_less_def if_chain_lex3)

subsection \<open>Powers of two and the binary exponent\<close>

lemma pow2_eq_powr: "pow2 e = 2 powr (real_of_int e)"
proof (cases "0 \<le> e")
  case True
  then show ?thesis
    by (simp add: pow2_def powr_realpow[symmetric])
next
  case False
  then have "2 powr (real_of_int e) = 1 / 2 powr (real_of_int (- e))"
    by (simp add: powr_minus_divide)
  also have "\<dots> = 1 / 2 ^ nat (- e)"
    using False by (simp add: powr_realpow[symmetric])
  finally show ?thesis using False by (simp add: pow2_def)
qed

lemma pow2_pos [simp]: "0 < pow2 e"
  by (simp add: pow2_eq_powr)

lemma pow2_add: "pow2 (a + b) = pow2 a * pow2 b"
  by (simp add: pow2_eq_powr powr_add)

lemma pow2_diff: "pow2 (a - b) = pow2 a / pow2 b"
  by (simp add: pow2_eq_powr powr_diff)

lemma pow2_le_iff [simp]: "pow2 a \<le> pow2 b \<longleftrightarrow> a \<le> b"
  by (simp add: pow2_eq_powr)

lemma pow2_less_iff [simp]: "pow2 a < pow2 b \<longleftrightarrow> a < b"
  by (simp add: pow2_eq_powr)

lemma pow2_nat: "pow2 (int n) = 2 ^ n"
  by (simp add: pow2_def)

lemma pow2_neg_nat: "pow2 (- int n) = 1 / 2 ^ n"
  by (simp add: pow2_eq_powr powr_minus_divide powr_realpow)

lemma pow2_of_int: "0 \<le> e \<Longrightarrow> pow2 e = of_int (2 ^ nat e)"
  by (simp add: pow2_def)

lemma ilog2_bounds:
  assumes "0 < a"
  shows "pow2 (ilog2 a) \<le> a" and "a < pow2 (ilog2 a + 1)"
proof -
  have "pow2 (ilog2 a) \<le> a \<and> a < pow2 (ilog2 a + 1)"
  proof (cases "1 \<le> a")
    case True
    define n where "n = nat \<lfloor>a\<rfloor>"
    define k where "k = floorlog 2 n"
    have n: "0 < n" "real n \<le> a" "a < real n + 1"
      using True by (simp_all add: n_def)
    have b: "2 ^ (k - 1) \<le> n" "n + 1 \<le> 2 ^ k"
      using floorlog_bounds[of n 2] n(1) by (simp_all add: k_def)
    have k: "0 < k"
      using n(1) by (simp add: k_def floorlog_def)
    have "ilog2 a = int (k - 1)" "ilog2 a + 1 = int k"
      using True k by (simp_all add: ilog2_def n_def k_def)
    then have e: "pow2 (ilog2 a) = 2 ^ (k - 1)" "pow2 (ilog2 a + 1) = 2 ^ k"
      by (simp_all only: pow2_nat)
    have "(2::real) ^ (k - 1) \<le> real n" "real n + 1 \<le> 2 ^ k"
      using of_nat_mono[OF b(1), where 'a = real] of_nat_mono[OF b(2), where 'a = real]
      by simp_all
    then show ?thesis
      unfolding e using n(2,3) by linarith
  next
    case False
    define y where "y = 1 / a"
    define m where "m = nat (\<lceil>y\<rceil> - 1)"
    define k where "k = floorlog 2 m"
    have y: "1 < y" "a = 1 / y" "0 < y"
      using False assms by (simp_all add: y_def)
    have "1 < \<lceil>y\<rceil>"
      using y(1) by linarith
    then have m: "0 < m" "real m < y" "y \<le> real m + 1"
      unfolding m_def by (simp, linarith, linarith)
    have b: "2 ^ (k - 1) \<le> m" "m + 1 \<le> 2 ^ k"
      using floorlog_bounds[of m 2] m(1) by (simp_all add: k_def)
    have k: "0 < k"
      using m(1) by (simp add: k_def floorlog_def)
    have "ilog2 a = - int k"
      using False by (simp add: ilog2_def m_def k_def y_def)
    moreover have "- int k + 1 = - int (k - 1)"
      using k by linarith
    ultimately have e: "pow2 (ilog2 a) = 1 / 2 ^ k" "pow2 (ilog2 a + 1) = 1 / 2 ^ (k - 1)"
      by (simp_all only: pow2_neg_nat)
    have "(2::real) ^ (k - 1) \<le> real m" "real m + 1 \<le> 2 ^ k"
      using of_nat_mono[OF b(1), where 'a = real] of_nat_mono[OF b(2), where 'a = real]
      by simp_all
    then have "y \<le> 2 ^ k" "2 ^ (k - 1) < y"
      using m(2,3) by linarith+
    then have "1 / 2 ^ k \<le> 1 / y" "1 / y < 1 / 2 ^ (k - 1)"
      using y(3) by (simp_all add: frac_le divide_strict_left_mono)
    then have "1 / 2 ^ k \<le> a" "a < 1 / 2 ^ (k - 1)"
      by (simp_all only: y(2)[symmetric])
    then show ?thesis
      by (simp only: e simp_thms)
  qed
  then show "pow2 (ilog2 a) \<le> a" and "a < pow2 (ilog2 a + 1)"
    by simp_all
qed

lemma ilog2_unique:
  assumes "pow2 e \<le> a" and "a < pow2 (e + 1)"
  shows "ilog2 a = e"
proof -
  have pos: "0 < a"
    using assms(1) pow2_pos[of e] by linarith
  have "pow2 (ilog2 a) < pow2 (e + 1)"
    using ilog2_bounds(1)[OF pos] assms(2) by linarith
  moreover have "pow2 e < pow2 (ilog2 a + 1)"
    using ilog2_bounds(2)[OF pos] assms(1) by linarith
  ultimately show ?thesis by simp
qed

lemma ilog2_mono:
  assumes "0 < a" and "a \<le> b"
  shows "ilog2 a \<le> ilog2 b"
proof -
  have "pow2 (ilog2 a) < pow2 (ilog2 b + 1)"
    using ilog2_bounds(1)[OF assms(1)] ilog2_bounds(2)[of b] assms by linarith
  then show ?thesis by simp
qed

subsection \<open>Rounding\<close>

lemma pow2_nonneg [simp]: "0 \<le> pow2 e"
  using pow2_pos[of e] by linarith

lemma pow2_neq_zero [simp]: "pow2 e \<noteq> 0"
  using pow2_pos[of e] by linarith

lemma pow2_zero [simp]: "pow2 0 = 1"
  by (simp add: pow2_def)

lemma pow2_mult_cancel: "pow2 (a - b) * pow2 b = pow2 a"
  using pow2_add[of "a - b" b] by simp

lemma rne_of_int [simp]: "rne (of_int k) = k"
  by (simp add: rne_def)

lemma rne_floor_le: "\<lfloor>s\<rfloor> \<le> rne s"
  by (simp add: rne_def Let_def)

lemma rne_le_floor: "rne s \<le> \<lfloor>s\<rfloor> + 1"
  by (simp add: rne_def Let_def)

lemma rne_mono:
  assumes "s \<le> t"
  shows "rne s \<le> rne t"
proof (cases "\<lfloor>s\<rfloor> = \<lfloor>t\<rfloor>")
  case True
  then have "s - of_int \<lfloor>s\<rfloor> \<le> t - of_int \<lfloor>t\<rfloor>"
    using assms by simp
  then show ?thesis
    using True by (auto simp: rne_def Let_def)
next
  case False
  then have lt: "\<lfloor>s\<rfloor> < \<lfloor>t\<rfloor>"
    using floor_mono[OF assms] by linarith
  show ?thesis
  proof (cases "s = of_int \<lfloor>s\<rfloor>")
    case True
    then have "rne s = \<lfloor>s\<rfloor>"
      by (metis rne_of_int)
    then show ?thesis
      using lt rne_floor_le[of t] by linarith
  next
    case False
    then show ?thesis
      using lt rne_le_floor[of s] rne_floor_le[of t] by linarith
  qed
qed

lemma rne_le_int: "s \<le> of_int k \<Longrightarrow> rne s \<le> k"
  using rne_mono[of s "of_int k"] by simp

lemma rne_ge_int: "of_int k \<le> s \<Longrightarrow> k \<le> rne s"
  using rne_mono[of "of_int k" s] by simp

lemma rnd_zero [simp]: "rnd 0 = 0"
  by (simp add: rnd_def)

lemma rnd_le_grid:
  assumes "r \<le> of_int k * pow2 (fexp r)"
  shows "rnd r \<le> of_int k * pow2 (fexp r)"
proof (cases "r = 0")
  case True
  then show ?thesis using assms by simp
next
  case False
  have "r / pow2 (fexp r) \<le> of_int k"
    using assms by (simp add: pos_divide_le_eq)
  then have "rne (r / pow2 (fexp r)) \<le> k"
    by (rule rne_le_int)
  then have "real_of_int (rne (r / pow2 (fexp r))) \<le> of_int k"
    by (simp only: of_int_le_iff)
  then show ?thesis
    using False by (simp add: rnd_def)
qed

lemma rnd_ge_grid:
  assumes "of_int k * pow2 (fexp r) \<le> r"
  shows "of_int k * pow2 (fexp r) \<le> rnd r"
proof (cases "r = 0")
  case True
  then show ?thesis using assms by simp
next
  case False
  have "of_int k \<le> r / pow2 (fexp r)"
    using assms by (simp add: pos_le_divide_eq)
  then have "k \<le> rne (r / pow2 (fexp r))"
    by (rule rne_ge_int)
  then have "real_of_int k \<le> of_int (rne (r / pow2 (fexp r)))"
    by (simp only: of_int_le_iff)
  then show ?thesis
    using False by (simp add: rnd_def)
qed

lemma rnd_nonneg: "0 \<le> r \<Longrightarrow> 0 \<le> rnd r"
  using rnd_ge_grid[of 0 r] by simp

lemma rnd_nonpos: "r \<le> 0 \<Longrightarrow> rnd r \<le> 0"
  using rnd_le_grid[of r 0] by simp

lemma fexp_lower: "- 1074 \<le> fexp r"
  by (simp add: fexp_def)

lemma fexp_le:
  assumes "r \<noteq> 0" and "\<bar>r\<bar> < pow2 (e + 53)" and "- 1074 \<le> e"
  shows "fexp r \<le> e"
proof -
  have "pow2 (ilog2 \<bar>r\<bar>) \<le> \<bar>r\<bar>"
    using assms(1) by (intro ilog2_bounds(1)) simp
  then have "pow2 (ilog2 \<bar>r\<bar>) < pow2 (e + 53)"
    using assms(2) by linarith
  then have "ilog2 \<bar>r\<bar> - 52 \<le> e"
    by simp
  then show ?thesis
    using assms(3) by (simp add: fexp_def)
qed

lemma rnd_grid:
  assumes "fexp r \<le> e" and "r = of_int m * pow2 e"
  shows "rnd r = r"
proof (cases "r = 0")
  case True
  then show ?thesis by simp
next
  case False
  define d where "d = nat (e - fexp r)"
  have "pow2 e = pow2 (int d) * pow2 (fexp r)"
    using assms(1) pow2_mult_cancel[of e "fexp r"] by (simp add: d_def)
  then have "r = of_int (m * 2 ^ d) * pow2 (fexp r)"
    by (simp add: assms(2) pow2_nat)
  then have "r / pow2 (fexp r) = of_int (m * 2 ^ d)" 
    by (simp add: nonzero_divide_eq_eq)
  then have "rnd r = of_int (m * 2 ^ d) * pow2 (fexp r)"
    using False by (simp only: rnd_def rne_of_int if_False)
  then show ?thesis
    using \<open>r = of_int (m * 2 ^ d) * pow2 (fexp r)\<close> by simp
qed

lemma rnd_exact:
  assumes "\<bar>m\<bar> < 2 ^ 53" and "- 1074 \<le> e"
  shows "rnd (of_int m * pow2 e) = of_int m * pow2 e"
proof (cases "m = 0")
  case True
  then show ?thesis by simp
next
  case False
  define r where "r = real_of_int m * pow2 e"
  have nz: "r \<noteq> 0"
    using False by (simp add: r_def)
  have "real_of_int \<bar>m\<bar> < real_of_int (2 ^ 53)"
    using assms(1) by (simp only: of_int_less_iff)
  then have "\<bar>r\<bar> < 2 ^ 53 * pow2 e"
    by (simp add: r_def abs_mult)
  also have "\<dots> = pow2 (e + 53)"
    using pow2_nat[of 53] by (simp add: pow2_add)
  finally have "fexp r \<le> e"
    using nz assms(2) by (intro fexp_le)
  then have "rnd r = r"
    by (rule rnd_grid) (simp add: r_def)
  then show ?thesis by (simp only: r_def)
qed

lemma rnd_mono_nonneg:
  assumes "0 \<le> a" and "a \<le> b"
  shows "rnd a \<le> rnd b"
proof (cases "a = 0")
  case True
  then show ?thesis
    using assms rnd_nonneg[of b] by simp
next
  case False
  then have pos: "0 < a" "0 < b"
    using assms by linarith+
  have il: "ilog2 a \<le> ilog2 b"
    using pos(1) assms(2) by (rule ilog2_mono)
  have fa: "fexp a = max (ilog2 a - 52) (- 1074)" and fb: "fexp b = max (ilog2 b - 52) (- 1074)"
    using pos by (simp_all add: fexp_def)
  show ?thesis
  proof (cases "fexp a = fexp b")
    case True
    have "rne (a / pow2 (fexp b)) \<le> rne (b / pow2 (fexp b))"
      using assms(2) by (intro rne_mono divide_right_mono) simp_all
    then have "real_of_int (rne (a / pow2 (fexp b))) \<le> of_int (rne (b / pow2 (fexp b)))"
      by (simp only: of_int_le_iff)
    then show ?thesis
      using pos True by (simp add: rnd_def)
  next
    case False
    then have lt: "fexp a < fexp b"
      using il fa fb by linarith
    define L where "L = ilog2 b"
    have fbL: "fexp b = L - 52"
      using lt fa fb unfolding L_def by linarith
    have aL: "ilog2 a + 1 \<le> L"
      using lt fa fbL by linarith
    have "a < pow2 (ilog2 a + 1)"
      using pos(1) by (rule ilog2_bounds(2))
    also have "\<dots> \<le> pow2 L"
      using aL by simp
    finally have a_lt: "a < pow2 L" .
    define d where "d = nat (L - fexp a)"
    have dd: "int d = L - fexp a"
      using lt fbL by (simp add: d_def)
    have "pow2 L = pow2 (int d) * pow2 (fexp a)"
      using pow2_mult_cancel[of L "fexp a"] by (simp only: dd)
    then have gL: "pow2 L = of_int (2 ^ d) * pow2 (fexp a)"
      by (simp add: pow2_nat)
    have "rnd a \<le> of_int (2 ^ d) * pow2 (fexp a)"
      using a_lt by (intro rnd_le_grid) (simp only: gL[symmetric])
    then have upper: "rnd a \<le> pow2 L"
      by (simp only: gL)
    have "pow2 L = pow2 52 * pow2 (fexp b)"
      using pow2_mult_cancel[of L "fexp b"] by (simp add: fbL)
    then have hL: "pow2 L = of_int (2 ^ 52) * pow2 (fexp b)"
      using pow2_nat[of 52] by simp
    have "pow2 L \<le> b"
      unfolding L_def using pos(2) by (rule ilog2_bounds(1))
    then have "of_int (2 ^ 52) * pow2 (fexp b) \<le> rnd b"
      by (intro rnd_ge_grid) (simp only: hL[symmetric])
    then have "pow2 L \<le> rnd b"
      by (simp only: hL)
    with upper show ?thesis by linarith
  qed
qed

lemma rne_minus: "rne (- s) = - rne s"
proof (cases "s = of_int \<lfloor>s\<rfloor>")
  case True
  have "rne (- real_of_int \<lfloor>s\<rfloor>) = - rne (of_int \<lfloor>s\<rfloor>)"
    by (simp only: of_int_minus[symmetric] rne_of_int)
  then show ?thesis by (simp only: True[symmetric])
next
  case False
  define f where "f = \<lfloor>s\<rfloor>"
  define d where "d = s - of_int f"
  have fl: "\<lfloor>- s\<rfloor> = - f - 1"
    using False by (simp add: f_def floor_minus ceiling_altdef)
  have d: "0 < d" "d < 1"
    using False by (simp_all add: d_def f_def) linarith+
  have dm: "- s - of_int (- f - 1) = 1 - d"
    by (simp add: d_def)
  have a: "rne s = (if d < 1 / 2 then f else if 1 / 2 < d then f + 1 else if even f then f else f + 1)"
    by (simp add: rne_def Let_def f_def d_def)
  have b: "rne (- s) = (if 1 - d < 1 / 2 then - f - 1 else if 1 / 2 < 1 - d then - f
       else if even (- f - 1) then - f - 1 else - f)"
    unfolding rne_def Let_def fl dm by simp
  show ?thesis
    unfolding a b using d by auto
qed

lemma fexp_minus [simp]: "fexp (- r) = fexp r"
  by (simp add: fexp_def)

lemma rnd_minus: "rnd (- r) = - rnd r"
  by (simp add: rnd_def rne_minus)

lemma rnd_mono:
  assumes "a \<le> b"
  shows "rnd a \<le> rnd b"
proof -
  consider "0 \<le> a" | "b \<le> 0" | "a < 0" "0 < b"
    by linarith
  then show ?thesis
  proof cases
    case 1
    then show ?thesis using assms by (rule rnd_mono_nonneg)
  next
    case 2
    then have "rnd (- b) \<le> rnd (- a)"
      using assms by (intro rnd_mono_nonneg) simp_all
    then show ?thesis by (simp add: rnd_minus)
  next
    case 3
    then show ?thesis
      using rnd_nonpos[of a] rnd_nonneg[of b] by linarith
  qed
qed

subsection \<open>Clamping and the range of a tile index\<close>

lemma clamp_range:
  fixes v :: "'a::linorder"
  assumes "lo \<le> hi"
  shows "lo \<le> clamp v lo hi" and "clamp v lo hi \<le> hi"
  using assms by (auto simp: clamp_def)

lemma clamp_mono:
  fixes v :: "'a::linorder"
  assumes "v \<le> w" and "lo \<le> hi"
  shows "clamp v lo hi \<le> clamp w lo hi"
  using assms by (auto simp: clamp_def)

lemma clamp_low: "lo \<le> hi \<Longrightarrow> v \<le> lo \<Longrightarrow> clamp v lo hi = lo" for v :: "'a::linorder"
  by (auto simp: clamp_def)

lemma clamp_high: "lo \<le> hi \<Longrightarrow> hi \<le> v \<Longrightarrow> clamp v lo hi = hi" for v :: "'a::linorder"
  by (auto simp: clamp_def)

lemma sint_num_tiles_minus_one:
  assumes "num_tiles_in_zoom zoom = Some n"
  shows "sint (n - 1) = 2 ^ unat zoom - 1"
proof -
  have z: "unat zoom < 32" and n: "unat n = 2 ^ unat zoom"
    using num_tiles_in_zoom_SomeD[OF assms] by (simp_all only: zoom_less_32_unat)
  have "unat (1::u32) \<le> unat n"
    by (simp only: n unat_1) simp
  then have "(1::u32) \<le> n"
    by (simp only: word_le_nat_alt)
  then have u: "unat (n - 1) = 2 ^ unat zoom - 1"
    by (simp only: unat_sub n unat_1)
  have "(2::nat) ^ unat zoom \<le> 2 ^ 31"
    using z by (intro power_increasing) simp_all
  then have "unat (n - 1) < 2 ^ 31"
    unfolding u by simp
  then have "sint (n - 1) = int (unat (n - 1))"
    by (rule sint_eq_unat)
  then show ?thesis
    unfolding u by (simp add: of_nat_diff)
qed

lemma unat_clamped_index:
  assumes "num_tiles_in_zoom zoom = Some n"
  shows "unat (word_of_int (clamp v 0 (sint (n - 1))) :: u32) = nat (clamp v 0 (2 ^ unat zoom - 1))"
    and "(word_of_int (clamp v 0 (sint (n - 1))) :: u32) < n"
proof -
  define c where "c = clamp v 0 (2 ^ unat zoom - 1)"
  have z: "unat zoom < 32" and n: "unat n = 2 ^ unat zoom"
    using num_tiles_in_zoom_SomeD[OF assms] by (simp_all only: zoom_less_32_unat)
  have s: "sint (n - 1) = 2 ^ unat zoom - 1"
    using assms by (rule sint_num_tiles_minus_one)
  have h: "(0::int) \<le> 2 ^ unat zoom - 1"
    by simp
  have c: "0 \<le> c" "c \<le> 2 ^ unat zoom - 1"
    unfolding c_def using h by (rule clamp_range)+
  have "(2::int) ^ unat zoom \<le> 2 ^ 31"
    using z by (intro power_increasing) simp_all
  moreover have "(2::int) ^ 31 < 2 ^ 32"
    by simp
  ultimately have "c < 2 ^ 32"
    using c(2) by linarith
  then have u: "unat (word_of_int c :: u32) = nat c"
    using c(1) by (intro unat_word_of_int)
  then show "unat (word_of_int (clamp v 0 (sint (n - 1))) :: u32) = nat (clamp v 0 (2 ^ unat zoom - 1))"
    by (simp only: s c_def)
  have "nat c < nat (2 ^ unat zoom)"
    using c by linarith
  then have "unat (word_of_int c :: u32) < unat n"
    by (simp add: u n)
  then show "(word_of_int (clamp v 0 (sint (n - 1))) :: u32) < n"
    by (simp only: word_less_nat_alt s c_def)
qed

lemma mercx_to_tilex_Some:
  assumes "num_tiles_in_zoom zoom = Some n"
    and "tile_extent_in_zoom mc zoom = Some extent"
    and "double_to_int32 (ddiv (dadd cx mc) extent) = Some v"
  shows "mercx_to_tilex mc zoom cx = Some (word_of_int (clamp v 0 (sint (n - 1))))"
  using assms by (simp add: mercx_to_tilex_def)

lemma mercy_to_tiley_Some:
  assumes "num_tiles_in_zoom zoom = Some n"
    and "tile_extent_in_zoom mc zoom = Some extent"
    and "double_to_int32 (ddiv (dsub mc cy) extent) = Some v"
  shows "mercy_to_tiley mc zoom cy = Some (word_of_int (clamp v 0 (sint (n - 1))))"
  using assms by (simp add: mercy_to_tiley_def)

lemma mercx_to_tilex_less:
  assumes "mercx_to_tilex mc zoom cx = Some t" and "num_tiles_in_zoom zoom = Some n"
  shows "t < n"
  using assms unat_clamped_index(2)[OF assms(2)]
  by (auto simp: mercx_to_tilex_def split: bind_splits)

lemma mercy_to_tiley_less:
  assumes "mercy_to_tiley mc zoom cy = Some t" and "num_tiles_in_zoom zoom = Some n"
  shows "t < n"
  using assms unat_clamped_index(2)[OF assms(2)]
  by (auto simp: mercy_to_tiley_def split: bind_splits)

lemma valid_in_range:
  assumes "zoom \<le> 30" and "num_tiles_in_zoom zoom = Some n" and "tx < n" and "ty < n"
  shows "valid \<lparr>x = tx, y = ty, z = zoom\<rparr> = Some True"
proof -
  have "\<not> max_zoom < zoom"
    using assms(1) by (simp add: max_zoom_def not_less)
  then show ?thesis
    using assms(2-4) by (simp add: valid_def)
qed

subsection \<open>Evaluation at concrete inputs\<close>

text \<open>The equations that the simplifier needs to run the model on numerals.\<close>

lemmas double_eval =
  rnd_def fexp_def ilog2_def compute_floorlog rne_def pow2_def Let_def to_double_def
  double_of_u32_def trunc_def double_to_int32_def dsub_def clamp_def
  num_tiles_in_zoom_def tile_extent_in_zoom_def mercx_to_tilex_def mercy_to_tiley_def
  epsg3857_max_def

lemma max_coordinate_ok_epsg3857: "max_coordinate_ok epsg3857_max"
  by (simp add: max_coordinate_ok_def is_double_def double_eval)

subsection \<open>The maximum coordinate and the tile extent\<close>

lemma rnd_power2: "rnd (2 ^ k) = 2 ^ k"
  using rnd_exact[of 1 "int k"] by (simp add: pow2_nat)

lemma to_double_Finite:
  assumes "\<bar>rnd r\<bar> < 2 ^ 1024"
  shows "to_double r = Finite (rnd r)"
  using assms by (simp add: to_double_def Let_def abs_less_iff not_le)

lemma rnd_abs_le:
  assumes "\<bar>r\<bar> \<le> b" and "rnd b = b"
  shows "\<bar>rnd r\<bar> \<le> b"
proof -
  have "rnd r \<le> rnd b"
    using assms(1) by (intro rnd_mono) linarith
  moreover have "rnd (- b) \<le> rnd r"
    using assms(1) by (intro rnd_mono) linarith
  ultimately show ?thesis
    using assms(2) by (simp add: rnd_minus abs_le_iff)
qed

text \<open>What the assumption on the constant gives.\<close>

lemma max_coordinate_repr:
  assumes "max_coordinate_ok (Finite m)"
  obtains M E where "m = of_int M * pow2 E" and "0 < M" and "M < 2 ^ 53"
    and "- 52 \<le> E" and "1 \<le> m" and "m \<le> 2 ^ 1000"
proof -
  have r: "rnd m = m" and lo: "1 \<le> m" and hi: "m \<le> 2 ^ 1000"
    using assms by (simp_all add: max_coordinate_ok_def is_double_def)
  have pos: "0 < m" using lo by linarith
  define E where "E = fexp m"
  define M where "M = rne (m / pow2 E)"
  have m: "m = of_int M * pow2 E"
    using r pos by (simp add: rnd_def M_def E_def)
  have "pow2 0 \<le> m"
    using lo by simp
  then have "pow2 0 < pow2 (ilog2 m + 1)"
    using ilog2_bounds(2)[OF pos] by linarith
  then have "0 < ilog2 m + 1"
    by (simp only: pow2_less_iff)
  then have "0 \<le> ilog2 m"
    by linarith
  then have E: "E = ilog2 m - 52"
    using pos by (simp add: E_def fexp_def)
  have "m < pow2 (ilog2 m + 1)"
    using pos by (rule ilog2_bounds(2))
  also have "ilog2 m + 1 = 53 + E"
    using E by linarith
  also have "pow2 (53 + E) = pow2 53 * pow2 E"
    by (rule pow2_add)
  also have "pow2 53 = 2 ^ 53"
    using pow2_nat[of 53] by simp
  finally have "of_int M * pow2 E < 2 ^ 53 * pow2 E"
    using m by simp
  then have "real_of_int M < 2 ^ 53"
    by simp
  then have "real_of_int M < real_of_int (2 ^ 53)"
    by simp
  then have M53: "M < 2 ^ 53"
    by (simp only: of_int_less_iff)
  have "0 < real_of_int M * pow2 E"
    using pos m by simp
  then have "0 < real_of_int M"
    using pow2_pos[of E] zero_less_mult_pos2 by blast
  then have Mpos: "0 < M"
    by simp
  have "- 52 \<le> E"
    using \<open>0 \<le> ilog2 m\<close> E by linarith
  then show thesis
    using m Mpos M53 lo hi by (intro that)
qed

lemma max_coordinate_scaled:
  assumes "max_coordinate_ok (Finite m)" and "- 1000 \<le> k"
  shows "rnd (m * pow2 k) = m * pow2 k"
proof -
  obtain M E where m: "m = of_int M * pow2 E" and M: "0 < M" "M < 2 ^ 53" and E: "- 52 \<le> E"
    using assms(1) by (rule max_coordinate_repr)
  have "rnd (of_int M * pow2 (E + k)) = of_int M * pow2 (E + k)"
    using M E assms(2) by (intro rnd_exact) simp_all
  then show ?thesis
    by (simp add: m pow2_add mult.assoc)
qed

lemma max_coordinate_double:
  assumes "max_coordinate_ok (Finite m)"
  shows "rnd (m * 2) = 2 * m" and "rnd (2 * m) = 2 * m" and "rnd m = m"
    and "k \<le> 31 \<Longrightarrow> rnd (2 * m / 2 ^ k) = 2 * m / 2 ^ k"
proof -
  show "rnd m = m"
    using max_coordinate_scaled[OF assms, of 0] by simp
  have "pow2 1 = 2"
    by (simp add: pow2_def)
  then show a: "rnd (2 * m) = 2 * m"
    using max_coordinate_scaled[OF assms, of 1] by (simp add: mult.commute)
  then show "rnd (m * 2) = 2 * m"
    by (simp add: mult.commute)
  show "rnd (2 * m / 2 ^ k) = 2 * m / 2 ^ k" if "k \<le> 31"
  proof -
    have "pow2 (1 - int k) = 2 / 2 ^ k"
      using pow2_diff[of 1 "int k"] \<open>pow2 1 = 2\<close> by (simp add: pow2_nat)
    then show ?thesis
      using max_coordinate_scaled[OF assms, of "1 - int k"] that by (simp add: mult.commute)
  qed
qed

lemma tile_extent_in_zoom_value:
  assumes "max_coordinate_ok (Finite m)" and "zoom < 32"
  shows "tile_extent_in_zoom (Finite m) zoom = Some (Finite (2 * m / 2 ^ unat zoom))"
proof -
  obtain n where n: "num_tiles_in_zoom zoom = Some n" and u: "unat n = 2 ^ unat zoom"
    using num_tiles_in_zoom_unat[OF assms(2)] by (auto simp: map_option_case split: option.splits)
  have k: "unat zoom \<le> 31"
    using assms(2) by (simp add: zoom_less_32_unat)
  obtain "1 \<le> m" and "m \<le> 2 ^ 1000"
    using assms(1) by (rule max_coordinate_repr)
  then have b: "0 \<le> 2 * m" "2 * m < 2 ^ 1024"
    by simp_all
  have "\<bar>rnd (m * 2)\<bar> < 2 ^ 1024"
    unfolding max_coordinate_double(1)[OF assms(1)] using b by linarith
  then have "dmul (Finite m) (Finite 2) = Finite (2 * m)"
    by (simp only: dmul.simps to_double_Finite max_coordinate_double(1)[OF assms(1)])
  moreover have "2 * m / 2 ^ unat zoom \<le> 2 * m" "0 \<le> 2 * m / 2 ^ unat zoom"
    using \<open>1 \<le> m\<close> by (simp_all add: divide_le_eq)
  then have "\<bar>rnd (2 * m / 2 ^ unat zoom)\<bar> < 2 ^ 1024"
    unfolding max_coordinate_double(4)[OF assms(1) k] using b by linarith
  then have "ddiv (Finite (2 * m)) (Finite (2 ^ unat zoom)) = Finite (2 * m / 2 ^ unat zoom)"
    by (simp add: to_double_Finite max_coordinate_double(4)[OF assms(1) k])
  moreover have "double_of_u32 n = Finite (2 ^ unat zoom)"
    by (simp add: double_of_u32_def u)
  ultimately show ?thesis
    by (simp only: tile_extent_in_zoom_def n bind.bind_lunit)
qed

subsection \<open>Coordinates inside the projection bounds\<close>

lemma two_m_finite:
  assumes "max_coordinate_ok (Finite m)"
  shows "0 < m" and "2 * m < 2 ^ 1024"
proof -
  obtain "1 \<le> m" and "m \<le> 2 ^ 1000"
    using assms by (rule max_coordinate_repr)
  then show "0 < m" and "2 * m < 2 ^ 1024"
    by simp_all
qed

lemma to_double_between:
  assumes "0 \<le> rnd r" and "rnd r \<le> b" and "b < 2 ^ 1024"
  shows "to_double r = Finite (rnd r)"
  using assms by (intro to_double_Finite) linarith

lemma sum_in_bounds:
  assumes "max_coordinate_ok (Finite m)" and "- m \<le> c" and "c \<le> m"
  shows "dadd (Finite c) (Finite m) = Finite (rnd (c + m))"
    and "0 \<le> rnd (c + m)" and "rnd (c + m) \<le> 2 * m"
proof -
  show lo: "0 \<le> rnd (c + m)"
    using assms(2) by (intro rnd_nonneg) linarith
  have "rnd (c + m) \<le> rnd (2 * m)"
    using assms(3) by (intro rnd_mono) linarith
  then show hi: "rnd (c + m) \<le> 2 * m"
    by (simp only: max_coordinate_double(2)[OF assms(1)])
  show "dadd (Finite c) (Finite m) = Finite (rnd (c + m))"
    using lo hi two_m_finite(2)[OF assms(1)] by (simp only: dadd.simps to_double_between)
qed

lemma difference_in_bounds:
  assumes "max_coordinate_ok (Finite m)" and "- m \<le> c" and "c \<le> m"
  shows "dsub (Finite m) (Finite c) = Finite (rnd (m - c))"
    and "0 \<le> rnd (m - c)" and "rnd (m - c) \<le> 2 * m"
proof -
  show lo: "0 \<le> rnd (m - c)"
    using assms(3) by (intro rnd_nonneg) linarith
  have "rnd (m - c) \<le> rnd (2 * m)"
    using assms(2) by (intro rnd_mono) linarith
  then show hi: "rnd (m - c) \<le> 2 * m"
    by (simp only: max_coordinate_double(2)[OF assms(1)])
  have "to_double (m + - c) = Finite (rnd (m + - c))"
    using lo hi two_m_finite(2)[OF assms(1)] by (intro to_double_between[of _ "2 * m"]) simp_all
  then show "dsub (Finite m) (Finite c) = Finite (rnd (m - c))"
    by (simp add: dsub_def)
qed

lemma quotient_in_bounds:
  assumes "max_coordinate_ok (Finite m)" and "0 \<le> s" and "s \<le> 2 * m" and "k \<le> 31"
  shows "ddiv (Finite s) (Finite (2 * m / 2 ^ k)) = Finite (rnd (s / (2 * m / 2 ^ k)))"
    and "0 \<le> rnd (s / (2 * m / 2 ^ k))" and "rnd (s / (2 * m / 2 ^ k)) \<le> 2 ^ k"
proof -
  have m: "0 < m"
    using assms(1) by (rule two_m_finite(1))
  then have ext: "0 < 2 * m / 2 ^ k"
    by simp
  have q: "0 \<le> s / (2 * m / 2 ^ k)"
    using assms(2) ext by (intro divide_nonneg_pos)
  have "s / (2 * m / 2 ^ k) \<le> 2 * m / (2 * m / 2 ^ k)"
    using assms(3) ext by (intro divide_right_mono) simp_all
  also have "\<dots> = 2 ^ k"
    using m by simp
  finally have "rnd (s / (2 * m / 2 ^ k)) \<le> rnd (2 ^ k)"
    by (rule rnd_mono)
  then show hi: "rnd (s / (2 * m / 2 ^ k)) \<le> 2 ^ k"
    by (simp only: rnd_power2)
  show lo: "0 \<le> rnd (s / (2 * m / 2 ^ k))"
    using q by (rule rnd_nonneg)
  have "(2::real) ^ k \<le> 2 ^ 31"
    using assms(4) by (intro power_increasing) simp_all
  then have "(2::real) ^ k < 2 ^ 1024"
    by simp
  with lo hi have "to_double (s / (2 * m / 2 ^ k)) = Finite (rnd (s / (2 * m / 2 ^ k)))"
    by (rule to_double_between)
  moreover have "2 * m / 2 ^ k \<noteq> 0"
    using ext by linarith
  ultimately show "ddiv (Finite s) (Finite (2 * m / 2 ^ k)) = Finite (rnd (s / (2 * m / 2 ^ k)))"
    by (simp only: ddiv.simps if_False)
qed

lemma floor_in_int32:
  assumes "0 \<le> q" and "q \<le> 2 ^ k" and "k \<le> 30"
  shows "double_to_int32 (Finite q) = Some \<lfloor>q\<rfloor>"
proof -
  have "(2::real) ^ k \<le> 2 ^ 30"
    using assms(3) by (intro power_increasing) simp_all
  then have "q < 2 ^ 31"
    using assms(2) by simp
  then have "\<lfloor>q\<rfloor> < 2 ^ 31"
    by (simp add: floor_less_iff)
  moreover have "0 \<le> \<lfloor>q\<rfloor>"
    using assms(1) by simp
  ultimately show ?thesis
    using assms(1) by (simp add: double_to_int32_def trunc_def)
qed

text \<open>
  The column of a coordinate inside the bounds, in exact terms: the quotient of the two
  rounded operations, truncated and clamped.
\<close>

lemma mercx_to_tilex_in_bounds:
  assumes "max_coordinate_ok (Finite m)" and "zoom \<le> 30" and "- m \<le> c" and "c \<le> m"
  shows "\<exists>t. mercx_to_tilex (Finite m) zoom (Finite c) = Some t \<and>
    int (unat t) = clamp \<lfloor>rnd (rnd (c + m) / (2 * m / 2 ^ unat zoom))\<rfloor> 0 (2 ^ unat zoom - 1)"
proof -
  define k where "k = unat zoom"
  define q where "q = rnd (rnd (c + m) / (2 * m / 2 ^ k))"
  have k: "k \<le> 30"
    using assms(2) by (simp only: k_def zoom_le_30_unat)
  then have z: "zoom < 32"
    by (simp add: zoom_less_32_unat k_def)
  then obtain n where n: "num_tiles_in_zoom zoom = Some n"
    by (simp add: num_tiles_in_zoom_def)
  have e: "tile_extent_in_zoom (Finite m) zoom = Some (Finite (2 * m / 2 ^ k))"
    unfolding k_def using assms(1) z by (rule tile_extent_in_zoom_value)
  note s = sum_in_bounds[OF assms(1,3,4)]
  have k31: "k \<le> 31"
    using k by simp
  note d = quotient_in_bounds[OF assms(1) s(2,3) k31]
  have "double_to_int32 (Finite q) = Some \<lfloor>q\<rfloor>"
    unfolding q_def using d(2,3) k by (rule floor_in_int32)
  then have "double_to_int32 (ddiv (dadd (Finite c) (Finite m)) (Finite (2 * m / 2 ^ k))) = Some \<lfloor>q\<rfloor>"
    by (simp only: s(1) d(1) q_def)
  with n e have "mercx_to_tilex (Finite m) zoom (Finite c)
      = Some (word_of_int (clamp \<lfloor>q\<rfloor> 0 (sint (n - 1))))"
    by (rule mercx_to_tilex_Some)
  moreover have "int (unat (word_of_int (clamp \<lfloor>q\<rfloor> 0 (sint (n - 1))) :: u32))
      = clamp \<lfloor>q\<rfloor> 0 (2 ^ k - 1)"
    using clamp_range(1)[of 0 "2 ^ k - 1" "\<lfloor>q\<rfloor>"]
    by (simp add: unat_clamped_index(1)[OF n] k_def)
  ultimately show ?thesis
    by (simp add: q_def k_def)
qed

lemma mercy_to_tiley_in_bounds:
  assumes "max_coordinate_ok (Finite m)" and "zoom \<le> 30" and "- m \<le> c" and "c \<le> m"
  shows "\<exists>t. mercy_to_tiley (Finite m) zoom (Finite c) = Some t \<and>
    int (unat t) = clamp \<lfloor>rnd (rnd (m - c) / (2 * m / 2 ^ unat zoom))\<rfloor> 0 (2 ^ unat zoom - 1)"
proof -
  define k where "k = unat zoom"
  define q where "q = rnd (rnd (m - c) / (2 * m / 2 ^ k))"
  have k: "k \<le> 30"
    using assms(2) by (simp only: k_def zoom_le_30_unat)
  then have z: "zoom < 32"
    by (simp add: zoom_less_32_unat k_def)
  then obtain n where n: "num_tiles_in_zoom zoom = Some n"
    by (simp add: num_tiles_in_zoom_def)
  have e: "tile_extent_in_zoom (Finite m) zoom = Some (Finite (2 * m / 2 ^ k))"
    unfolding k_def using assms(1) z by (rule tile_extent_in_zoom_value)
  note s = difference_in_bounds[OF assms(1,3,4)]
  have k31: "k \<le> 31"
    using k by simp
  note d = quotient_in_bounds[OF assms(1) s(2,3) k31]
  have "double_to_int32 (Finite q) = Some \<lfloor>q\<rfloor>"
    unfolding q_def using d(2,3) k by (rule floor_in_int32)
  then have "double_to_int32 (ddiv (dsub (Finite m) (Finite c)) (Finite (2 * m / 2 ^ k))) = Some \<lfloor>q\<rfloor>"
    by (simp only: s(1) d(1) q_def)
  with n e have "mercy_to_tiley (Finite m) zoom (Finite c)
      = Some (word_of_int (clamp \<lfloor>q\<rfloor> 0 (sint (n - 1))))"
    by (rule mercy_to_tiley_Some)
  moreover have "int (unat (word_of_int (clamp \<lfloor>q\<rfloor> 0 (sint (n - 1))) :: u32))
      = clamp \<lfloor>q\<rfloor> 0 (2 ^ k - 1)"
    using clamp_range(1)[of 0 "2 ^ k - 1" "\<lfloor>q\<rfloor>"]
    by (simp add: unat_clamped_index(1)[OF n] k_def)
  ultimately show ?thesis
    by (simp add: q_def k_def)
qed

lemma quotient_mono:
  assumes "0 < m" and "a \<le> b"
  shows "\<lfloor>rnd (rnd a / (2 * m / 2 ^ k))\<rfloor> \<le> \<lfloor>rnd (rnd b / (2 * m / 2 ^ k))\<rfloor>"
proof -
  have "0 \<le> 2 * m / 2 ^ k"
    using assms(1) by simp
  moreover have "rnd a \<le> rnd b"
    using assms(2) by (rule rnd_mono)
  ultimately have "rnd a / (2 * m / 2 ^ k) \<le> rnd b / (2 * m / 2 ^ k)"
    by (intro divide_right_mono)
  then show ?thesis
    by (intro floor_mono rnd_mono)
qed

lemma clamped_quotient_mono:
  assumes "0 < m" and "a \<le> b"
  shows "clamp \<lfloor>rnd (rnd a / (2 * m / 2 ^ k))\<rfloor> 0 (2 ^ k - 1)
       \<le> clamp \<lfloor>rnd (rnd b / (2 * m / 2 ^ k))\<rfloor> 0 (2 ^ k - 1)"
  using quotient_mono[OF assms] by (intro clamp_mono) simp_all

lemma mercx_to_tilex_mono:
  assumes "max_coordinate_ok (Finite m)" and "zoom \<le> 30"
    and "- m \<le> c1" and "c1 \<le> c2" and "c2 \<le> m"
  shows "\<exists>t1 t2. mercx_to_tilex (Finite m) zoom (Finite c1) = Some t1 \<and>
     mercx_to_tilex (Finite m) zoom (Finite c2) = Some t2 \<and> t1 \<le> t2"
proof -
  have b1: "c1 \<le> m" and b2: "- m \<le> c2"
    using assms(3-5) by linarith+
  obtain t1 where t1: "mercx_to_tilex (Finite m) zoom (Finite c1) = Some t1"
    "int (unat t1) = clamp \<lfloor>rnd (rnd (c1 + m) / (2 * m / 2 ^ unat zoom))\<rfloor> 0 (2 ^ unat zoom - 1)"
    using mercx_to_tilex_in_bounds[OF assms(1,2,3) b1] by blast
  obtain t2 where t2: "mercx_to_tilex (Finite m) zoom (Finite c2) = Some t2"
    "int (unat t2) = clamp \<lfloor>rnd (rnd (c2 + m) / (2 * m / 2 ^ unat zoom))\<rfloor> 0 (2 ^ unat zoom - 1)"
    using mercx_to_tilex_in_bounds[OF assms(1,2) b2 assms(5)] by blast
  have "c1 + m \<le> c2 + m"
    using assms(4) by simp
  then have "int (unat t1) \<le> int (unat t2)"
    unfolding t1(2) t2(2) by (intro clamped_quotient_mono two_m_finite(1)[OF assms(1)])
  then have "t1 \<le> t2"
    by (simp only: word_le_nat_alt of_nat_le_iff)
  with t1(1) t2(1) show ?thesis by blast
qed

lemma mercy_to_tiley_antimono:
  assumes "max_coordinate_ok (Finite m)" and "zoom \<le> 30"
    and "- m \<le> c1" and "c1 \<le> c2" and "c2 \<le> m"
  shows "\<exists>t1 t2. mercy_to_tiley (Finite m) zoom (Finite c1) = Some t1 \<and>
     mercy_to_tiley (Finite m) zoom (Finite c2) = Some t2 \<and> t2 \<le> t1"
proof -
  have b1: "c1 \<le> m" and b2: "- m \<le> c2"
    using assms(3-5) by linarith+
  obtain t1 where t1: "mercy_to_tiley (Finite m) zoom (Finite c1) = Some t1"
    "int (unat t1) = clamp \<lfloor>rnd (rnd (m - c1) / (2 * m / 2 ^ unat zoom))\<rfloor> 0 (2 ^ unat zoom - 1)"
    using mercy_to_tiley_in_bounds[OF assms(1,2,3) b1] by blast
  obtain t2 where t2: "mercy_to_tiley (Finite m) zoom (Finite c2) = Some t2"
    "int (unat t2) = clamp \<lfloor>rnd (rnd (m - c2) / (2 * m / 2 ^ unat zoom))\<rfloor> 0 (2 ^ unat zoom - 1)"
    using mercy_to_tiley_in_bounds[OF assms(1,2) b2 assms(5)] by blast
  have "m - c2 \<le> m - c1"
    using assms(4) by simp
  then have "int (unat t2) \<le> int (unat t1)"
    unfolding t1(2) t2(2) by (intro clamped_quotient_mono two_m_finite(1)[OF assms(1)])
  then have "t2 \<le> t1"
    by (simp only: word_le_nat_alt of_nat_le_iff)
  with t1(1) t2(1) show ?thesis by blast
qed

text \<open>The two ends of the projection's extent.\<close>

lemma quotient_at_zero: "clamp \<lfloor>rnd (rnd 0 / (2 * m / 2 ^ k))\<rfloor> 0 (2 ^ k - 1) = (0::int)"
proof -
  have "\<not> (2::int) ^ k - 1 < 0"
    by (simp add: not_less)
  then show ?thesis
    by (simp add: clamp_def del: diff_less_0_iff_less)
qed

lemma nat_eq_power_minus_one:
  assumes "int n = 2 ^ k - 1"
  shows "n = 2 ^ k - 1"
proof -
  have "int (2 ^ k - 1) = 2 ^ k - 1"
    by (simp add: of_nat_diff)
  then have "int n = int (2 ^ k - 1)"
    using assms by simp
  then show ?thesis
    by (simp only: of_nat_eq_iff)
qed

lemma quotient_at_full:
  assumes "max_coordinate_ok (Finite m)"
  shows "clamp \<lfloor>rnd (rnd (2 * m) / (2 * m / 2 ^ k))\<rfloor> 0 (2 ^ k - 1) = (2 ^ k - 1 :: int)"
proof -
  have "0 < m"
    using assms by (rule two_m_finite(1))
  then have "rnd (2 * m) / (2 * m / 2 ^ k) = 2 ^ k"
    by (simp add: max_coordinate_double(2)[OF assms])
  then have "\<lfloor>rnd (rnd (2 * m) / (2 * m / 2 ^ k))\<rfloor> = (2 ^ k :: int)"
    by (simp only: rnd_power2) simp
  then show ?thesis
    by (simp add: clamp_def)
qed

lemma mercx_to_tilex_at_bounds:
  assumes "max_coordinate_ok (Finite m)" and "zoom \<le> 30"
  shows "mercx_to_tilex (Finite m) zoom (Finite (- m)) = Some 0"
    and "\<exists>t. mercx_to_tilex (Finite m) zoom (Finite m) = Some t \<and> unat t = 2 ^ unat zoom - 1"
proof -
  have m: "0 < m"
    using assms(1) by (rule two_m_finite(1))
  obtain t where t: "mercx_to_tilex (Finite m) zoom (Finite (- m)) = Some t"
    "int (unat t) = clamp \<lfloor>rnd (rnd (- m + m) / (2 * m / 2 ^ unat zoom))\<rfloor> 0 (2 ^ unat zoom - 1)"
    using mercx_to_tilex_in_bounds[OF assms, of "- m"] m by auto
  have "int (unat t) = 0"
    unfolding t(2) using quotient_at_zero[of m "unat zoom"] by simp
  then have "unat t = 0"
    by (simp only: of_nat_eq_0_iff)
  then have "t = 0"
    by (simp only: unat_eq_zero)
  then show "mercx_to_tilex (Finite m) zoom (Finite (- m)) = Some 0"
    using t(1) by simp
  obtain u where u: "mercx_to_tilex (Finite m) zoom (Finite m) = Some u"
    "int (unat u) = clamp \<lfloor>rnd (rnd (m + m) / (2 * m / 2 ^ unat zoom))\<rfloor> 0 (2 ^ unat zoom - 1)"
    using mercx_to_tilex_in_bounds[OF assms, of m] m by auto
  have "m + m = 2 * m"
    by simp
  then have "int (unat u) = 2 ^ unat zoom - 1"
    unfolding u(2) using quotient_at_full[OF assms(1), of "unat zoom"] by simp
  then have "unat u = 2 ^ unat zoom - 1"
    by (rule nat_eq_power_minus_one)
  with u(1) show "\<exists>t. mercx_to_tilex (Finite m) zoom (Finite m) = Some t \<and> unat t = 2 ^ unat zoom - 1"
    by blast
qed

lemma mercy_to_tiley_at_bounds:
  assumes "max_coordinate_ok (Finite m)" and "zoom \<le> 30"
  shows "mercy_to_tiley (Finite m) zoom (Finite m) = Some 0"
    and "\<exists>t. mercy_to_tiley (Finite m) zoom (Finite (- m)) = Some t \<and> unat t = 2 ^ unat zoom - 1"
proof -
  have m: "0 < m"
    using assms(1) by (rule two_m_finite(1))
  obtain t where t: "mercy_to_tiley (Finite m) zoom (Finite m) = Some t"
    "int (unat t) = clamp \<lfloor>rnd (rnd (m - m) / (2 * m / 2 ^ unat zoom))\<rfloor> 0 (2 ^ unat zoom - 1)"
    using mercy_to_tiley_in_bounds[OF assms, of m] m by auto
  have "int (unat t) = 0"
    unfolding t(2) using quotient_at_zero[of m "unat zoom"] by simp
  then have "unat t = 0"
    by (simp only: of_nat_eq_0_iff)
  then have "t = 0"
    by (simp only: unat_eq_zero)
  then show "mercy_to_tiley (Finite m) zoom (Finite m) = Some 0"
    using t(1) by simp
  obtain u where u: "mercy_to_tiley (Finite m) zoom (Finite (- m)) = Some u"
    "int (unat u) = clamp \<lfloor>rnd (rnd (m - - m) / (2 * m / 2 ^ unat zoom))\<rfloor> 0 (2 ^ unat zoom - 1)"
    using mercy_to_tiley_in_bounds[OF assms, of "- m"] m by auto
  have "m - - m = 2 * m"
    by simp
  then have "int (unat u) = 2 ^ unat zoom - 1"
    unfolding u(2) using quotient_at_full[OF assms(1), of "unat zoom"] by simp
  then have "unat u = 2 ^ unat zoom - 1"
    by (rule nat_eq_power_minus_one)
  with u(1) show "\<exists>t. mercy_to_tiley (Finite m) zoom (Finite (- m)) = Some t \<and> unat t = 2 ^ unat zoom - 1"
    by blast
qed

subsection \<open>Coordinates outside the bounds whose quotient fits \<^verbatim>\<open>int32_t\<close>\<close>

lemma to_double_FiniteD:
  assumes "to_double r = Finite v"
  shows "v = rnd r"
  using assms by (simp add: to_double_def Let_def split: if_splits)

lemma double_to_int32_SomeD:
  assumes "double_to_int32 d = Some v"
  obtains r where "d = Finite r" and "v = trunc r"
  using assms by (cases d) (simp_all add: double_to_int32_def split: if_splits)

lemma ddiv_FiniteD:
  assumes "ddiv a (Finite e) = Finite q" and "0 < e"
  obtains s where "a = Finite s" and "q = rnd (s / e)"
proof (cases a)
  case (Finite s)
  then have "to_double (s / e) = Finite q"
    using assms by simp
  then have "q = rnd (s / e)"
    by (rule to_double_FiniteD)
  with Finite show thesis by (rule that)
next
  case PlusInf
  then show thesis using assms by simp
next
  case MinusInf
  then show thesis using assms by simp
next
  case NaN
  then show thesis using assms by simp
qed

lemma clamped_index_cases:
  assumes "num_tiles_in_zoom zoom = Some n"
  shows "v \<le> 0 \<Longrightarrow> (word_of_int (clamp v 0 (sint (n - 1))) :: u32) = 0"
    and "2 ^ unat zoom - 1 \<le> v \<Longrightarrow>
      unat (word_of_int (clamp v 0 (sint (n - 1))) :: u32) = 2 ^ unat zoom - 1"
proof -
  have h: "(0::int) \<le> 2 ^ unat zoom - 1"
    by simp
  show "(word_of_int (clamp v 0 (sint (n - 1))) :: u32) = 0" if "v \<le> 0"
  proof -
    have "clamp v 0 (2 ^ unat zoom - 1) = 0"
      using h that by (rule clamp_low)
    then have "unat (word_of_int (clamp v 0 (sint (n - 1))) :: u32) = 0"
      by (simp only: unat_clamped_index(1)[OF assms] nat_0)
    then show ?thesis
      by (simp only: unat_0_iff)
  qed
  show "unat (word_of_int (clamp v 0 (sint (n - 1))) :: u32) = 2 ^ unat zoom - 1"
    if "2 ^ unat zoom - 1 \<le> v"
  proof -
    have "clamp v 0 (2 ^ unat zoom - 1) = 2 ^ unat zoom - 1"
      using h that by (rule clamp_high)
    then have "int (unat (word_of_int (clamp v 0 (sint (n - 1))) :: u32)) = 2 ^ unat zoom - 1"
      by (simp only: unat_clamped_index(1)[OF assms]) simp
    then show ?thesis
      by (rule nat_eq_power_minus_one)
  qed
qed

lemma trunc_mono_bounds:
  shows "q \<le> 0 \<Longrightarrow> trunc q \<le> 0"
    and "of_int i \<le> q \<Longrightarrow> 0 \<le> i \<Longrightarrow> i \<le> trunc q"
proof -
  show "trunc q \<le> 0" if "q \<le> 0"
    using that by (auto simp: trunc_def ceiling_le_iff)
  show "i \<le> trunc q" if "of_int i \<le> q" and "0 \<le> i"
  proof -
    have "0 \<le> q"
      using that by (metis of_int_0_le_iff order_trans)
    then show ?thesis
      using that(1) by (simp add: trunc_def le_floor_iff)
  qed
qed

text \<open>
  Whenever \<^verbatim>\<open>mercx_to_tilex\<close> returns for a coordinate at or beyond a bound, the result
  is the first or the last column.
\<close>

lemma mercx_to_tilex_saturates:
  assumes "max_coordinate_ok (Finite m)" and "zoom \<le> 30"
    and "mercx_to_tilex (Finite m) zoom (Finite c) = Some t"
  shows "c \<le> - m \<Longrightarrow> t = 0" and "m \<le> c \<Longrightarrow> unat t = 2 ^ unat zoom - 1"
proof -
  define k where "k = unat zoom"
  define e where "e = 2 * m / 2 ^ k"
  have "k \<le> 30"
    using assms(2) by (simp add: k_def zoom_le_30_unat)
  then have z: "zoom < 32"
    by (simp add: zoom_less_32_unat k_def)
  have ext: "tile_extent_in_zoom (Finite m) zoom = Some (Finite e)"
    unfolding e_def k_def using assms(1) z by (rule tile_extent_in_zoom_value)
  have m: "0 < m"
    using assms(1) by (rule two_m_finite(1))
  then have e: "0 < e"
    by (simp add: e_def)
  obtain n v where n: "num_tiles_in_zoom zoom = Some n"
    and v: "double_to_int32 (ddiv (dadd (Finite c) (Finite m)) (Finite e)) = Some v"
    and t: "t = word_of_int (clamp v 0 (sint (n - 1)))"
    using assms(3) by (auto simp: mercx_to_tilex_def ext split: bind_splits)
  obtain q where q: "ddiv (dadd (Finite c) (Finite m)) (Finite e) = Finite q" and vq: "v = trunc q"
    using v by (rule double_to_int32_SomeD)
  obtain s where s: "dadd (Finite c) (Finite m) = Finite s" and qs: "q = rnd (s / e)"
    using q e by (rule ddiv_FiniteD)
  have sc: "s = rnd (c + m)"
    using s by (simp add: to_double_FiniteD)
  show "t = 0" if "c \<le> - m"
  proof -
    have "s \<le> 0"
      unfolding sc using that by (intro rnd_nonpos) linarith
    then have "s / e \<le> 0"
      using e by (simp add: divide_le_0_iff)
    then have "q \<le> 0"
      unfolding qs by (rule rnd_nonpos)
    then have "v \<le> 0"
      unfolding vq by (rule trunc_mono_bounds(1))
    then show ?thesis
      unfolding t by (rule clamped_index_cases(1)[OF n])
  qed
  show "unat t = 2 ^ unat zoom - 1" if "m \<le> c"
  proof -
    have "rnd (2 * m) \<le> rnd (c + m)"
      using that by (intro rnd_mono) linarith
    then have "2 * m \<le> s"
      by (simp only: sc max_coordinate_double(2)[OF assms(1)])
    then have "2 * m / e \<le> s / e"
      using e by (intro divide_right_mono) simp_all
    moreover have "2 * m / e = 2 ^ k"
      using m by (simp add: e_def)
    ultimately have "rnd (2 ^ k) \<le> q"
      unfolding qs by (intro rnd_mono) simp
    then have "real_of_int (2 ^ k) \<le> q"
      by (simp add: rnd_power2)
    then have "2 ^ k \<le> v"
      unfolding vq by (rule trunc_mono_bounds(2)) simp
    then have "2 ^ unat zoom - 1 \<le> v"
      by (simp add: k_def)
    then show ?thesis
      unfolding t by (rule clamped_index_cases(2)[OF n])
  qed
qed

lemma dsub_Finite: "dsub (Finite a) (Finite b) = to_double (a - b)"
  by (simp add: dsub_def)

lemma mercy_to_tiley_saturates:
  assumes "max_coordinate_ok (Finite m)" and "zoom \<le> 30"
    and "mercy_to_tiley (Finite m) zoom (Finite c) = Some t"
  shows "m \<le> c \<Longrightarrow> t = 0" and "c \<le> - m \<Longrightarrow> unat t = 2 ^ unat zoom - 1"
proof -
  define k where "k = unat zoom"
  define e where "e = 2 * m / 2 ^ k"
  have "k \<le> 30"
    using assms(2) by (simp add: k_def zoom_le_30_unat)
  then have z: "zoom < 32"
    by (simp add: zoom_less_32_unat k_def)
  have ext: "tile_extent_in_zoom (Finite m) zoom = Some (Finite e)"
    unfolding e_def k_def using assms(1) z by (rule tile_extent_in_zoom_value)
  have m: "0 < m"
    using assms(1) by (rule two_m_finite(1))
  then have e: "0 < e"
    by (simp add: e_def)
  obtain n v where n: "num_tiles_in_zoom zoom = Some n"
    and v: "double_to_int32 (ddiv (dsub (Finite m) (Finite c)) (Finite e)) = Some v"
    and t: "t = word_of_int (clamp v 0 (sint (n - 1)))"
    using assms(3) by (auto simp: mercy_to_tiley_def ext split: bind_splits)
  obtain q where q: "ddiv (dsub (Finite m) (Finite c)) (Finite e) = Finite q" and vq: "v = trunc q"
    using v by (rule double_to_int32_SomeD)
  obtain s where s: "dsub (Finite m) (Finite c) = Finite s" and qs: "q = rnd (s / e)"
    using q e by (rule ddiv_FiniteD)
  have sc: "s = rnd (m - c)"
    using s by (simp add: dsub_Finite to_double_FiniteD)
  show "t = 0" if "m \<le> c"
  proof -
    have "s \<le> 0"
      unfolding sc using that by (intro rnd_nonpos) linarith
    then have "s / e \<le> 0"
      using e by (simp add: divide_le_0_iff)
    then have "q \<le> 0"
      unfolding qs by (rule rnd_nonpos)
    then have "v \<le> 0"
      unfolding vq by (rule trunc_mono_bounds(1))
    then show ?thesis
      unfolding t by (rule clamped_index_cases(1)[OF n])
  qed
  show "unat t = 2 ^ unat zoom - 1" if "c \<le> - m"
  proof -
    have "rnd (2 * m) \<le> rnd (m - c)"
      using that by (intro rnd_mono) linarith
    then have "2 * m \<le> s"
      by (simp only: sc max_coordinate_double(2)[OF assms(1)])
    then have "2 * m / e \<le> s / e"
      using e by (intro divide_right_mono) simp_all
    moreover have "2 * m / e = 2 ^ k"
      using m by (simp add: e_def)
    ultimately have "rnd (2 ^ k) \<le> q"
      unfolding qs by (intro rnd_mono) simp
    then have "real_of_int (2 ^ k) \<le> q"
      by (simp add: rnd_power2)
    then have "2 ^ k \<le> v"
      unfolding vq by (rule trunc_mono_bounds(2)) simp
    then have "2 ^ unat zoom - 1 \<le> v"
      by (simp add: k_def)
    then show ?thesis
      unfolding t by (rule clamped_index_cases(2)[OF n])
  qed
qed

subsection \<open>Coordinates far outside the projection bounds\<close>

lemma double_to_int32_large:
  assumes "2 ^ 31 \<le> rnd r"
  shows "double_to_int32 (to_double r) = None"
proof -
  have "(2::int) ^ 31 \<le> \<lfloor>rnd r\<rfloor>"
    using assms by (simp add: le_floor_iff)
  moreover have "0 \<le> rnd r"
    using assms by (rule order_trans[rotated]) simp
  ultimately have "double_to_int32 (Finite (rnd r)) = None"
    by (simp add: double_to_int32_def trunc_def)
  then show ?thesis
    by (simp add: to_double_def Let_def double_to_int32_def)
qed

lemma quotient_large:
  assumes "max_coordinate_ok (Finite m)" and "k \<le> 31" and "m * 2 ^ (32 - k) \<le> s"
  shows "2 ^ 31 \<le> rnd (s / (2 * m / 2 ^ k))"
proof -
  have m: "0 < m"
    using assms(1) by (rule two_m_finite(1))
  have "(2::real) ^ (32 - k) * 2 ^ k = 2 ^ 32"
    using assms(2) by (simp add: power_add[symmetric])
  then have "m * 2 ^ (32 - k) / (2 * m / 2 ^ k) = 2 ^ 31"
    using m by (simp add: field_simps)
  moreover have "m * 2 ^ (32 - k) / (2 * m / 2 ^ k) \<le> s / (2 * m / 2 ^ k)"
    using assms(3) m by (intro divide_right_mono) simp_all
  ultimately have "rnd (2 ^ 31) \<le> rnd (s / (2 * m / 2 ^ k))"
    by (intro rnd_mono) simp
  then show ?thesis
    by (simp only: rnd_power2)
qed

lemma far_sum_cases:
  assumes "max_coordinate_ok (Finite m)" and "m * 2 ^ j \<le> r"
  shows "to_double r = PlusInf \<or> (to_double r = Finite (rnd r) \<and> m * 2 ^ j \<le> rnd r)"
proof -
  have "rnd (m * pow2 (int j)) = m * pow2 (int j)"
    by (rule max_coordinate_scaled[OF assms(1)]) linarith
  then have "rnd (m * 2 ^ j) = m * 2 ^ j"
    by (simp only: pow2_nat)
  moreover have "rnd (m * 2 ^ j) \<le> rnd r"
    using assms(2) by (rule rnd_mono)
  ultimately have a: "m * 2 ^ j \<le> rnd r"
    by simp
  have "0 < m * 2 ^ j"
    using two_m_finite(1)[OF assms(1)] by simp
  then have "0 < rnd r"
    using a by linarith
  then have "\<not> rnd r \<le> - (2 ^ 1024)"
    by simp
  then show ?thesis
    using a by (simp add: to_double_def Let_def)
qed

text \<open>
  At every zoom level there are finite coordinates for which the conversion to
  \<^verbatim>\<open>int32_t\<close> is undefined: the quotient is at least \<open>2 ^ 31\<close>.
\<close>

lemma mercx_to_tilex_far_undefined:
  assumes "max_coordinate_ok (Finite m)" and "zoom \<le> 30"
    and "m * 2 ^ (32 - unat zoom) \<le> c"
  shows "mercx_to_tilex (Finite m) zoom (Finite c) = None"
proof -
  define k where "k = unat zoom"
  have k: "k \<le> 31"
    using assms(2) by (simp add: k_def zoom_le_30_unat)
  then have z: "zoom < 32"
    by (simp add: zoom_less_32_unat k_def)
  have e: "tile_extent_in_zoom (Finite m) zoom = Some (Finite (2 * m / 2 ^ k))"
    unfolding k_def using assms(1) z by (rule tile_extent_in_zoom_value)
  have m: "0 < m"
    using assms(1) by (rule two_m_finite(1))
  then have ext: "0 < 2 * m / 2 ^ k"
    by simp
  have "m * 2 ^ (32 - k) \<le> c + m"
    using assms(3) m by (simp add: k_def)
  then consider "to_double (c + m) = PlusInf"
    | "to_double (c + m) = Finite (rnd (c + m))" "m * 2 ^ (32 - k) \<le> rnd (c + m)"
    using far_sum_cases[OF assms(1)] by blast
  then have "double_to_int32 (ddiv (dadd (Finite c) (Finite m)) (Finite (2 * m / 2 ^ k))) = None"
  proof cases
    case 1
    then show ?thesis
      using ext by (simp add: double_to_int32_def)
  next
    case 2
    have "2 ^ 31 \<le> rnd (rnd (c + m) / (2 * m / 2 ^ k))"
      using assms(1) k 2(2) by (rule quotient_large)
    then have "double_to_int32 (to_double (rnd (c + m) / (2 * m / 2 ^ k))) = None"
      by (rule double_to_int32_large)
    moreover have "2 * m / 2 ^ k \<noteq> 0"
      using ext by linarith
    ultimately show ?thesis
      by (simp only: dadd.simps 2(1) ddiv.simps if_False)
  qed
  then show ?thesis
    by (simp add: mercx_to_tilex_def e num_tiles_in_zoom_def z)
qed

lemma mercy_to_tiley_far_undefined:
  assumes "max_coordinate_ok (Finite m)" and "zoom \<le> 30"
    and "c \<le> - (m * 2 ^ (32 - unat zoom))"
  shows "mercy_to_tiley (Finite m) zoom (Finite c) = None"
proof -
  define k where "k = unat zoom"
  have k: "k \<le> 31"
    using assms(2) by (simp add: k_def zoom_le_30_unat)
  then have z: "zoom < 32"
    by (simp add: zoom_less_32_unat k_def)
  have e: "tile_extent_in_zoom (Finite m) zoom = Some (Finite (2 * m / 2 ^ k))"
    unfolding k_def using assms(1) z by (rule tile_extent_in_zoom_value)
  have m: "0 < m"
    using assms(1) by (rule two_m_finite(1))
  then have ext: "0 < 2 * m / 2 ^ k"
    by simp
  have "m * 2 ^ (32 - k) \<le> m + - c"
    using assms(3) m by (simp add: k_def)
  then consider "to_double (m + - c) = PlusInf"
    | "to_double (m + - c) = Finite (rnd (m + - c))" "m * 2 ^ (32 - k) \<le> rnd (m + - c)"
    using far_sum_cases[OF assms(1)] by blast
  then have "double_to_int32 (ddiv (dsub (Finite m) (Finite c)) (Finite (2 * m / 2 ^ k))) = None"
  proof cases
    case 1
    then show ?thesis
      using ext by (simp add: double_to_int32_def dsub_def)
  next
    case 2
    have "2 ^ 31 \<le> rnd (rnd (m + - c) / (2 * m / 2 ^ k))"
      using assms(1) k 2(2) by (rule quotient_large)
    then have "double_to_int32 (to_double (rnd (m + - c) / (2 * m / 2 ^ k))) = None"
      by (rule double_to_int32_large)
    moreover have "2 * m / 2 ^ k \<noteq> 0"
      using ext by linarith
    ultimately show ?thesis
      by (simp only: dsub_def dneg.simps dadd.simps 2(1) ddiv.simps if_False)
  qed
  then show ?thesis
    by (simp add: mercy_to_tiley_def e num_tiles_in_zoom_def z)
qed

section \<open>The claims\<close>

text \<open>
  C1. For every zoom level from 0 to 30, \<^verbatim>\<open>num_tiles_in_zoom\<close> returns, and the
  value it returns is exactly \<open>2 ^ zoom\<close> (read as a natural number: nothing wraps).
\<close>

theorem C1_num_tiles_in_zoom:
  "zoom \<le> 30 \<Longrightarrow> map_option unat (num_tiles_in_zoom zoom) = Some (2 ^ unat zoom)"
proof -
  assume "zoom \<le> 30"
  then have "unat zoom \<le> 30"
    by (simp only: zoom_le_30_unat)
  then have "zoom < 32"
    by (simp add: zoom_less_32_unat)
  then show ?thesis by (rule num_tiles_in_zoom_unat)
qed

theorem C1_num_tiles_in_zoom_witness:
  "(5::u32) \<le> 30 \<and> map_option unat (num_tiles_in_zoom 5) = Some 32"
  using C1_num_tiles_in_zoom [of 5] by simp

text \<open>
  C2. At the lower projection bound \<^verbatim>\<open>mercx_to_tilex\<close> returns 0 and at the upper bound
  it returns \<^verbatim>\<open>num_tiles_in_zoom(zoom) - 1\<close> (lemma \<open>mercx_to_tilex_at_bounds\<close>), and
  whenever it returns for a coordinate beyond a bound, the result is that of the bound
  (lemma \<open>mercx_to_tilex_saturates\<close>). But it does not return for every coordinate: the
  quotient is converted to \<^verbatim>\<open>int32_t\<close> before it is clamped. At zoom level 30 and
  \<open>x = 4 * max\<close> (80150033.36) the quotient is 2684354560, which \<^verbatim>\<open>int32_t\<close> cannot
  hold, so the conversion is undefined and nothing is clamped. The same happens at
  \<open>x = max + 2 * max\<close>, where the quotient is \<open>2 ^ 31\<close>.
\<close>

theorem C2_far_coordinate_undefined:
  "is_double (5378777688351703 / 2 ^ 26) \<and>
   tile_extent_in_zoom epsg3857_max 30 = Some (Finite (5378777688351703 / 2 ^ 57)) \<and>
   ddiv (dadd (Finite (5378777688351703 / 2 ^ 26)) epsg3857_max)
        (Finite (5378777688351703 / 2 ^ 57)) = Finite 2684354560 \<and>
   double_to_int32 (Finite 2684354560) = None \<and>
   mercx_to_tilex epsg3857_max 30 (Finite (5378777688351703 / 2 ^ 26)) = None \<and>
   mercx_to_tilex epsg3857_max 30 (dadd epsg3857_max (dmul (Finite 2) epsg3857_max)) = None"
  by (simp add: is_double_def double_eval)

text \<open>
  C3. For a zoom level from 0 to 30 and projected coordinates \<open>x1 \<le> x2\<close> inside the
  projection bounds, \<^verbatim>\<open>mercx_to_tilex\<close> returns for both, the column of \<open>x1\<close> is not
  above the column of \<open>x2\<close>, and both columns are below \<^verbatim>\<open>num_tiles_in_zoom(zoom)\<close>,
  which is \<open>2 ^ zoom\<close>.
\<close>

theorem C3_mercx_to_tilex_monotone:
  assumes "max_coordinate_ok (Finite m)" and "zoom \<le> 30"
    and "- m \<le> x1" and "x1 \<le> x2" and "x2 \<le> m"
  shows "\<exists>n t1 t2. num_tiles_in_zoom zoom = Some n \<and> unat n = 2 ^ unat zoom \<and>
     mercx_to_tilex (Finite m) zoom (Finite x1) = Some t1 \<and>
     mercx_to_tilex (Finite m) zoom (Finite x2) = Some t2 \<and>
     t1 \<le> t2 \<and> t1 \<le> n - 1 \<and> t2 \<le> n - 1 \<and> unat t2 \<le> 2 ^ unat zoom - 1"
proof -
  obtain t1 t2 where t: "mercx_to_tilex (Finite m) zoom (Finite x1) = Some t1"
      "mercx_to_tilex (Finite m) zoom (Finite x2) = Some t2" "t1 \<le> t2"
    using mercx_to_tilex_mono[OF assms] by blast
  have "unat zoom \<le> 30"
    using assms(2) by (simp only: zoom_le_30_unat)
  then have "zoom < 32"
    by (simp add: zoom_less_32_unat)
  then obtain n where n: "num_tiles_in_zoom zoom = Some n"
    by (simp add: num_tiles_in_zoom_def)
  have u: "unat n = 2 ^ unat zoom"
    using num_tiles_in_zoom_SomeD[OF n] by simp
  have "t1 < n" "t2 < n"
    using t(1,2) n by (simp_all only: mercx_to_tilex_less)
  then have "unat t1 < unat n" "unat t2 < unat n"
    by (simp_all only: word_less_nat_alt)
  moreover have "unat (n - 1) = unat n - 1"
    using unat_num_tiles_minus_one[OF n] by (simp only: u)
  ultimately have "unat t1 \<le> unat (n - 1)" "unat t2 \<le> unat (n - 1)" "unat t2 \<le> 2 ^ unat zoom - 1"
    using u by linarith+
  then have "t1 \<le> n - 1" "t2 \<le> n - 1" "unat t2 \<le> 2 ^ unat zoom - 1"
    by (simp_all only: word_le_nat_alt)
  with n u t show ?thesis by blast
qed

theorem C3_mercx_to_tilex_monotone_witness:
  "max_coordinate_ok epsg3857_max \<and> (3::u32) \<le> 30 \<and>
   mercx_to_tilex epsg3857_max 3 (Finite (- 10000000)) = Some 2 \<and>
   mercx_to_tilex epsg3857_max 3 (Finite 15000000) = Some 6 \<and>
   (2::u32) \<le> 6 \<and> (6::u32) \<le> 8 - 1"
proof -
  have ok: "max_coordinate_ok (Finite (5378777688351703 / 2 ^ 28))"
    using max_coordinate_ok_epsg3857 by (simp only: epsg3857_max_def)
  have z: "(3::u32) \<le> 30"
    by simp
  have b: "- (5378777688351703 / 2 ^ 28) \<le> (- 10000000 :: real)" "(- 10000000 :: real) \<le> 15000000"
    "(15000000::real) \<le> 5378777688351703 / 2 ^ 28"
    by simp_all
  have x1: "mercx_to_tilex epsg3857_max 3 (Finite (- 10000000)) = Some 2"
    by (simp add: double_eval)
  have x2: "mercx_to_tilex epsg3857_max 3 (Finite 15000000) = Some 6"
    by (simp add: double_eval)
  have n: "num_tiles_in_zoom 3 = Some 8"
    by (simp add: num_tiles_in_zoom_def)
  show ?thesis
    using C3_mercx_to_tilex_monotone [OF ok z b] x1 x2 n max_coordinate_ok_epsg3857
    by (simp add: epsg3857_max_def)
qed

text \<open>
  C4. For \<open>y1 \<le> y2\<close> inside the projection bounds the row number of \<open>y1\<close> is not
  smaller than that of \<open>y2\<close> (lemma \<open>mercy_to_tiley_antimono\<close>), the rows at the two
  bounds are 0 and \<^verbatim>\<open>num_tiles_in_zoom(zoom) - 1\<close> (lemma \<open>mercy_to_tiley_at_bounds\<close>),
  and whenever \<^verbatim>\<open>mercy_to_tiley\<close> returns for a coordinate beyond a bound, the result
  is that of the bound (lemma \<open>mercy_to_tiley_saturates\<close>). But, as for
  \<^verbatim>\<open>mercx_to_tilex\<close>, it does not return for every coordinate: at zoom level 30 and
  \<open>y = - 4 * max\<close> (-80150033.36) the quotient is 2684354560 and its conversion to
  \<^verbatim>\<open>int32_t\<close> is undefined, so nothing is clamped. The same happens at
  \<open>y = - (max + 2 * max)\<close>, where the quotient is \<open>2 ^ 31\<close>.
\<close>

theorem C4_far_coordinate_undefined:
  "is_double (- (5378777688351703 / 2 ^ 26)) \<and>
   tile_extent_in_zoom epsg3857_max 30 = Some (Finite (5378777688351703 / 2 ^ 57)) \<and>
   ddiv (dsub epsg3857_max (Finite (- (5378777688351703 / 2 ^ 26))))
        (Finite (5378777688351703 / 2 ^ 57)) = Finite 2684354560 \<and>
   double_to_int32 (Finite 2684354560) = None \<and>
   mercy_to_tiley epsg3857_max 30 (Finite (- (5378777688351703 / 2 ^ 26))) = None \<and>
   mercy_to_tiley epsg3857_max 30 (dneg (dadd epsg3857_max (dmul (Finite 2) epsg3857_max))) = None"
  by (simp add: is_double_def double_eval)

text \<open>
  C5. \<^verbatim>\<open>valid()\<close> returns true exactly when \<open>z \<le> 30\<close> and both \<open>x\<close> and \<open>y\<close> are
  below \<^verbatim>\<open>num_tiles_in_zoom(z)\<close>, that is below \<open>2 ^ z\<close>. The tile of zoom 2 with
  \<open>x = 3\<close> and \<open>y = 3\<close> is valid, a tile whose \<open>x\<close> is the number of tiles of its zoom
  level is not, and a tile of zoom level 31 is not. The function is pure: it returns
  the answer and nothing else.
\<close>

theorem C5_valid:
  "valid t = Some (z t \<le> 30 \<and>
      (case num_tiles_in_zoom (z t) of Some n \<Rightarrow> x t < n \<and> y t < n | None \<Rightarrow> False)) \<and>
   valid t = Some (z t \<le> 30 \<and> unat (x t) < 2 ^ unat (z t) \<and> unat (y t) < 2 ^ unat (z t)) \<and>
   Tile_from_indexes ndebug 2 3 3 = Inr \<lparr>x = 3, y = 3, z = 2\<rparr> \<and>
   valid \<lparr>x = 3, y = 3, z = 2\<rparr> = Some True \<and>
   (num_tiles_in_zoom zoom = Some n \<longrightarrow> valid \<lparr>x = n, y = ty, z = zoom\<rparr> = Some False) \<and>
   valid \<lparr>x = tx, y = ty, z = 31\<rparr> = Some False"
proof (intro conjI impI)
  show "valid t = Some (z t \<le> 30 \<and>
      (case num_tiles_in_zoom (z t) of Some n \<Rightarrow> x t < n \<and> y t < n | None \<Rightarrow> False))"
  proof (cases "30 < z t")
    case True
    then show ?thesis by (simp add: valid_large not_le)
  next
    case False
    then have "z t \<le> 30" by (simp add: not_less)
    then show ?thesis
      by (simp only: valid_small(1,2)[OF False] option.case simp_thms)
  qed
  show "valid t = Some (z t \<le> 30 \<and> unat (x t) < 2 ^ unat (z t) \<and> unat (y t) < 2 ^ unat (z t))"
  proof (cases "30 < z t")
    case True
    then show ?thesis by (simp add: valid_large not_le)
  next
    case False
    then have "z t \<le> 30" by (simp add: not_less)
    then show ?thesis
      by (simp only: valid_small(1)[OF False] word_less_nat_alt valid_small(3)[OF False] simp_thms)
  qed
  show "Tile_from_indexes ndebug 2 3 3 = Inr \<lparr>x = 3, y = 3, z = 2\<rparr>"
    by (simp add: Tile_from_indexes_def max_zoom_def num_tiles_in_zoom_def)
  show "valid \<lparr>x = 3, y = 3, z = 2\<rparr> = Some True"
    by (simp add: valid_def max_zoom_def num_tiles_in_zoom_def)
  show "valid \<lparr>x = n, y = ty, z = zoom\<rparr> = Some False"
    if "num_tiles_in_zoom zoom = Some n"
    using that by (simp add: valid_def)
  show "valid \<lparr>x = tx, y = ty, z = 31\<rparr> = Some False"
    by (simp add: valid_def max_zoom_def)
qed

theorem C5_valid_witness:
  "num_tiles_in_zoom 2 = Some 4 \<and> valid \<lparr>x = 4, y = 0, z = 2\<rparr> = Some False"
  using C5_valid [where zoom = 2 and n = 4 and ty = 0] by (simp add: num_tiles_in_zoom_def)

text \<open>
  C6. \<^verbatim>\<open>a == b\<close> holds exactly when the three fields agree, \<^verbatim>\<open>a != b\<close> is its
  negation, and two tiles built by the constructor from the same zoom, \<open>x\<close> and \<open>y\<close>
  compare equal.
\<close>

theorem C6_tile_eq:
  "(tile_eq a b \<longleftrightarrow> x a = x b \<and> y a = y b \<and> z a = z b) \<and>
   (tile_eq a b \<longleftrightarrow> a = b) \<and>
   (tile_neq a b \<longleftrightarrow> \<not> tile_eq a b) \<and>
   (Tile_from_indexes ndebug zoom tx ty = Inr a \<and> Tile_from_indexes ndebug zoom tx ty = Inr b
      \<longrightarrow> tile_eq a b \<and> \<not> tile_neq a b)"
  by (auto simp: tile_eq_def tile_neq_def)

theorem C6_tile_eq_witness:
  "Tile_from_indexes False 2 3 3 = Inr \<lparr>x = 3, y = 3, z = 2\<rparr> \<and>
   tile_eq \<lparr>x = 3, y = 3, z = 2\<rparr> \<lparr>x = 3, y = 3, z = 2\<rparr> \<and>
   \<not> tile_neq \<lparr>x = 3, y = 3, z = 2\<rparr> \<lparr>x = 3, y = 3, z = 2\<rparr>"
proof -
  have "Tile_from_indexes False 2 3 3 = Inr \<lparr>x = 3, y = 3, z = 2\<rparr>"
    by (simp add: Tile_from_indexes_def max_zoom_def num_tiles_in_zoom_def)
  then show ?thesis
    using C6_tile_eq [of "\<lparr>x = 3, y = 3, z = 2\<rparr>" "\<lparr>x = 3, y = 3, z = 2\<rparr>" False 2 3 3]
    by blast
qed

text \<open>
  C7. \<^verbatim>\<open>operator<\<close> is a strict total order on tiles: irreflexive, transitive, and of
  \<open>a < b\<close>, \<open>b < a\<close>, \<open>a == b\<close> exactly one holds. It compares \<open>z\<close> first, then \<open>x\<close>,
  then \<open>y\<close>, each ascending; so the tile (zoom 1, 0, 0) is below (zoom 2, 0, 0), which
  is below (zoom 2, x 0, y 1).
\<close>

theorem C7_tile_less:
  "\<not> tile_less a a \<and>
   (tile_less a b \<and> tile_less b c \<longrightarrow> tile_less a c) \<and>
   ((tile_less a b \<and> \<not> tile_less b a \<and> \<not> tile_eq a b) \<or>
    (\<not> tile_less a b \<and> tile_less b a \<and> \<not> tile_eq a b) \<or>
    (\<not> tile_less a b \<and> \<not> tile_less b a \<and> tile_eq a b)) \<and>
   (tile_less a b \<longleftrightarrow>
      z a < z b \<or> (z a = z b \<and> (x a < x b \<or> (x a = x b \<and> y a < y b)))) \<and>
   tile_less \<lparr>x = 0, y = 0, z = 1\<rparr> \<lparr>x = 0, y = 0, z = 2\<rparr> \<and>
   tile_less \<lparr>x = 0, y = 0, z = 2\<rparr> \<lparr>x = 0, y = 1, z = 2\<rparr>"
proof (intro conjI impI)
  show "\<not> tile_less a a"
    by (simp only: tile_less_lex lex3_irrefl not_False_eq_True)
  show "tile_less a c" if "tile_less a b \<and> tile_less b c"
    using that lex3_trans unfolding tile_less_lex by blast
  show "(tile_less a b \<and> \<not> tile_less b a \<and> \<not> tile_eq a b) \<or>
   (\<not> tile_less a b \<and> tile_less b a \<and> \<not> tile_eq a b) \<or>
   (\<not> tile_less a b \<and> \<not> tile_less b a \<and> tile_eq a b)"
    unfolding tile_less_lex tile_eq_def by (rule lex3_trichotomy)
  show "tile_less a b \<longleftrightarrow>
     z a < z b \<or> (z a = z b \<and> (x a < x b \<or> (x a = x b \<and> y a < y b)))"
    by (simp only: tile_less_lex lex3_def)
  show "tile_less \<lparr>x = 0, y = 0, z = 1\<rparr> \<lparr>x = 0, y = 0, z = 2\<rparr>"
    by (simp add: tile_less_def)
  show "tile_less \<lparr>x = 0, y = 0, z = 2\<rparr> \<lparr>x = 0, y = 1, z = 2\<rparr>"
    by (simp add: tile_less_def)
qed

theorem C7_tile_less_witness:
  "tile_less \<lparr>x = 0, y = 0, z = 1\<rparr> \<lparr>x = 0, y = 0, z = 2\<rparr> \<and>
   tile_less \<lparr>x = 0, y = 0, z = 2\<rparr> \<lparr>x = 0, y = 1, z = 2\<rparr> \<and>
   tile_less \<lparr>x = 0, y = 0, z = 1\<rparr> \<lparr>x = 0, y = 1, z = 2\<rparr>"
  using C7_tile_less [of "\<lparr>x = 0, y = 0, z = 1\<rparr>" "\<lparr>x = 0, y = 0, z = 2\<rparr>"
      "\<lparr>x = 0, y = 1, z = 2\<rparr>"]
  by blast

text \<open>
  C8. For a valid location and a zoom level from 0 to 30, converting the location to
  projected coordinates and passing them to the constructor from coordinates gives the
  same result, and so the same tile indices, as the constructor from the location.
\<close>

theorem C8_construction_paths_agree:
  "zoom \<le> 30 \<Longrightarrow> location_valid location \<Longrightarrow>
   (case lonlat_to_mercator location of
      Inl e \<Rightarrow> Inl e
    | Inr coordinates \<Rightarrow> Tile_from_coordinates ndebug mc zoom coordinates)
   = Tile_from_location ndebug mc location_valid lonlat_to_mercator zoom location"
  by (simp add: Tile_from_coordinates_def Tile_from_location_def max_zoom_def
      split: sum.splits)

theorem C8_construction_paths_agree_witness:
  "(2::u32) \<le> 30 \<and>
   (case (\<lambda>l. if l = (0::int, 0::int) then Inr (Finite 0, Finite 0) else Inl Exception_thrown) (0, 0) of
      Inl e \<Rightarrow> Inl e
    | Inr coordinates \<Rightarrow> Tile_from_coordinates False epsg3857_max 2 coordinates)
   = Inr \<lparr>x = 2, y = 2, z = 2\<rparr> \<and>
   Tile_from_location False epsg3857_max (\<lambda>l. True)
     (\<lambda>l. if l = (0::int, 0::int) then Inr (Finite 0, Finite 0) else Inl Exception_thrown) 2 (0, 0)
   = Inr \<lparr>x = 2, y = 2, z = 2\<rparr>"
proof -
  have z: "(2::u32) \<le> 30"
    by simp
  have x: "mercx_to_tilex epsg3857_max 2 (Finite 0) = Some 2"
    by (simp add: double_eval)
  have y: "mercy_to_tiley epsg3857_max 2 (Finite 0) = Some 2"
    by (simp add: double_eval)
  have "Tile_from_coordinates False epsg3857_max 2 (Finite 0, Finite 0) = Inr \<lparr>x = 2, y = 2, z = 2\<rparr>"
    by (simp add: Tile_from_coordinates_def max_zoom_def x y)
  then show ?thesis
    using C8_construction_paths_agree [OF z, where location_valid = "\<lambda>l. True"
      and location = "(0::int, 0::int)" and ndebug = False and mc = epsg3857_max
      and lonlat_to_mercator =
        "\<lambda>l. if l = (0::int, 0::int) then Inr (Finite 0, Finite 0) else Inl Exception_thrown"]
    by simp
qed

text \<open>
  C9. For a zoom level from 0 to 30, \<^verbatim>\<open>tile_extent_in_zoom(zoom)\<close> multiplied by
  \<^verbatim>\<open>num_tiles_in_zoom(zoom)\<close> is twice the maximum coordinate: exactly as real numbers,
  and exactly when the product is computed in \<^verbatim>\<open>double\<close> arithmetic, because multiplying
  and dividing by a power of two does not round.
\<close>

theorem C9_extent_times_tiles:
  assumes "max_coordinate_ok (Finite m)" and "zoom \<le> 30"
  shows "\<exists>e n. tile_extent_in_zoom (Finite m) zoom = Some (Finite e) \<and>
     num_tiles_in_zoom zoom = Some n \<and>
     e * real (unat n) = 2 * m \<and>
     dmul (Finite e) (double_of_u32 n) = Finite (2 * m) \<and>
     dmul (Finite m) (Finite 2) = Finite (2 * m)"
proof -
  have "unat zoom \<le> 30"
    using assms(2) by (simp only: zoom_le_30_unat)
  then have z: "zoom < 32"
    by (simp add: zoom_less_32_unat)
  then obtain n where n: "num_tiles_in_zoom zoom = Some n"
    by (simp add: num_tiles_in_zoom_def)
  have u: "unat n = 2 ^ unat zoom"
    using num_tiles_in_zoom_SomeD[OF n] by simp
  define e where "e = 2 * m / 2 ^ unat zoom"
  have e: "tile_extent_in_zoom (Finite m) zoom = Some (Finite e)"
    unfolding e_def using assms(1) z by (rule tile_extent_in_zoom_value)
  have p: "e * real (unat n) = 2 * m"
    by (simp add: e_def u)
  have f: "0 \<le> 2 * m" "2 * m < 2 ^ 1024"
    using two_m_finite[OF assms(1)] by simp_all
  have r: "rnd (2 * m) = 2 * m"
    using assms(1) by (rule max_coordinate_double(2))
  have t: "to_double (2 * m) = Finite (2 * m)"
    using to_double_between[of "2 * m" "2 * m"] f by (simp add: r)
  have "dmul (Finite e) (double_of_u32 n) = to_double (e * real (unat n))"
    by (simp add: double_of_u32_def)
  then have d1: "dmul (Finite e) (double_of_u32 n) = Finite (2 * m)"
    by (simp only: p t)
  have "dmul (Finite m) (Finite 2) = to_double (2 * m)"
    by (simp add: mult.commute)
  then have d2: "dmul (Finite m) (Finite 2) = Finite (2 * m)"
    by (simp only: t)
  from e n p d1 d2 show ?thesis by blast
qed

theorem C9_extent_times_tiles_witness:
  "max_coordinate_ok epsg3857_max \<and> (30::u32) \<le> 30 \<and>
   tile_extent_in_zoom epsg3857_max 30 = Some (Finite (5378777688351703 / 2 ^ 57)) \<and>
   num_tiles_in_zoom 30 = Some 1073741824 \<and>
   dmul (Finite (5378777688351703 / 2 ^ 57)) (double_of_u32 1073741824)
     = Finite (5378777688351703 / 2 ^ 27)"
proof -
  have ok: "max_coordinate_ok (Finite (5378777688351703 / 2 ^ 28))"
    using max_coordinate_ok_epsg3857 by (simp only: epsg3857_max_def)
  have z: "(30::u32) \<le> 30"
    by simp
  have e: "tile_extent_in_zoom epsg3857_max 30 = Some (Finite (5378777688351703 / 2 ^ 57))"
    by (simp add: double_eval)
  have n: "num_tiles_in_zoom 30 = Some 1073741824"
    by (simp add: num_tiles_in_zoom_def)
  from C9_extent_times_tiles [OF ok z] obtain e' n'
    where h: "tile_extent_in_zoom (Finite (5378777688351703 / 2 ^ 28)) 30 = Some (Finite e')"
      "num_tiles_in_zoom 30 = Some n'"
      "dmul (Finite e') (double_of_u32 n') = Finite (2 * (5378777688351703 / 2 ^ 28))"
    by blast
  have "Some (Finite e') = Some (Finite (5378777688351703 / 2 ^ 57))"
    using h(1) e by (simp only: epsg3857_max_def)
  then have e': "e' = 5378777688351703 / 2 ^ 57"
    by (simp only: option.inject double.inject)
  have n': "n' = 1073741824"
    using h(2) n by simp
  have "2 * (5378777688351703 / 2 ^ 28) = (5378777688351703 / 2 ^ 27 :: real)"
    by simp
  then have "dmul (Finite (5378777688351703 / 2 ^ 57)) (double_of_u32 1073741824)
     = Finite (5378777688351703 / 2 ^ 27)"
    using h(3) by (simp only: e' n')
  with e n max_coordinate_ok_epsg3857 show ?thesis
    by simp
qed

text \<open>
  C10. For a zoom level from 0 to 30 and any coordinates, inside the projection bounds
  or not: if the two conversions to \<^verbatim>\<open>int32_t\<close> are defined, the constructor from
  coordinates returns a tile and \<^verbatim>\<open>valid()\<close> holds of it; so does the constructor from
  a location whose projected coordinates these are. And whenever one of the two
  constructors returns a tile at all, \<^verbatim>\<open>valid()\<close> holds of it.
\<close>

theorem C10_constructed_tile_valid:
  assumes "zoom \<le> 30"
    and "tile_extent_in_zoom mc zoom = Some extent"
    and "double_to_int32 (ddiv (dadd cx mc) extent) = Some vx"
    and "double_to_int32 (ddiv (dsub mc cy) extent) = Some vy"
  shows "(\<exists>t. Tile_from_coordinates ndebug mc zoom (cx, cy) = Inr t \<and> valid t = Some True) \<and>
    (lonlat_to_mercator location = Inr (cx, cy) \<and> (ndebug \<or> location_valid location) \<longrightarrow>
       (\<exists>t. Tile_from_location ndebug mc location_valid lonlat_to_mercator zoom location = Inr t
            \<and> valid t = Some True)) \<and>
    (\<forall>c t. Tile_from_coordinates ndebug mc zoom c = Inr t \<longrightarrow> valid t = Some True) \<and>
    (\<forall>l t. Tile_from_location ndebug mc location_valid lonlat_to_mercator zoom l = Inr t
        \<longrightarrow> valid t = Some True)"
proof -
  obtain n where n: "num_tiles_in_zoom zoom = Some n"
    using assms(2) by (auto simp: tile_extent_in_zoom_def split: bind_splits)
  have zm: "zoom \<le> max_zoom"
    using assms(1) by (simp add: max_zoom_def)
  define tx :: u32 where "tx = word_of_int (clamp vx 0 (sint (n - 1)))"
  define ty :: u32 where "ty = word_of_int (clamp vy 0 (sint (n - 1)))"
  have mx: "mercx_to_tilex mc zoom cx = Some tx"
    unfolding tx_def using n assms(2,3) by (rule mercx_to_tilex_Some)
  have my: "mercy_to_tiley mc zoom cy = Some ty"
    unfolding ty_def using n assms(2,4) by (rule mercy_to_tiley_Some)
  have ok: "valid \<lparr>x = a, y = b, z = zoom\<rparr> = Some True"
    if "mercx_to_tilex mc zoom c1 = Some a" and "mercy_to_tiley mc zoom c2 = Some b"
    for a b c1 c2
    using assms(1) n mercx_to_tilex_less[OF that(1) n] mercy_to_tiley_less[OF that(2) n]
    by (rule valid_in_range)
  have 1: "\<exists>t. Tile_from_coordinates ndebug mc zoom (cx, cy) = Inr t \<and> valid t = Some True"
    using zm mx my ok[OF mx my] by (simp add: Tile_from_coordinates_def)
  have 2: "\<exists>t. Tile_from_location ndebug mc location_valid lonlat_to_mercator zoom location = Inr t
            \<and> valid t = Some True"
    if "lonlat_to_mercator location = Inr (cx, cy) \<and> (ndebug \<or> location_valid location)"
    using that zm mx my ok[OF mx my] by (auto simp: Tile_from_location_def)
  have 3: "valid t = Some True" if "Tile_from_coordinates ndebug mc zoom c = Inr t" for c t
    using that ok by (auto simp: Tile_from_coordinates_def split: if_splits option.splits)
  have 4: "valid t = Some True"
    if "Tile_from_location ndebug mc location_valid lonlat_to_mercator zoom l = Inr t" for l t
    using that ok
    by (auto simp: Tile_from_location_def split: if_splits option.splits sum.splits)
  from 1 2 3 4 show ?thesis by blast
qed

theorem C10_constructed_tile_valid_witness:
  "Tile_from_coordinates False epsg3857_max 2 (Finite 30000000, Finite (- 30000000))
     = Inr \<lparr>x = 3, y = 3, z = 2\<rparr> \<and>
   valid \<lparr>x = 3, y = 3, z = 2\<rparr> = Some True"
proof -
  have z: "(2::u32) \<le> 30"
    by simp
  have e: "tile_extent_in_zoom epsg3857_max 2 = Some (Finite (5378777688351703 / 2 ^ 29))"
    by (simp add: double_eval)
  have vx: "double_to_int32 (ddiv (dadd (Finite 30000000) epsg3857_max)
      (Finite (5378777688351703 / 2 ^ 29))) = Some 4"
    by (simp add: double_eval)
  have vy: "double_to_int32 (ddiv (dsub epsg3857_max (Finite (- 30000000)))
      (Finite (5378777688351703 / 2 ^ 29))) = Some 4"
    by (simp add: double_eval)
  have x: "mercx_to_tilex epsg3857_max 2 (Finite 30000000) = Some 3"
    by (simp add: double_eval)
  have y: "mercy_to_tiley epsg3857_max 2 (Finite (- 30000000)) = Some 3"
    by (simp add: double_eval)
  have t: "Tile_from_coordinates False epsg3857_max 2 (Finite 30000000, Finite (- 30000000))
     = Inr \<lparr>x = 3, y = 3, z = 2\<rparr>"
    by (simp add: Tile_from_coordinates_def max_zoom_def x y)
  show ?thesis
    using C10_constructed_tile_valid [OF z e vx vy, where ndebug = False
      and lonlat_to_mercator = "\<lambda>l::unit. Inr (Finite 30000000, Finite (- 30000000))"
      and location = "()" and location_valid = "\<lambda>l. True"] t
    by simp
qed

end
